theory Spec2Isabelle
  imports
    Main
    "HOL-Library.Word"
    "HOL-Library.Char_ord"
    "HOL-Library.List_Lexorder"
    "HOL-Library.Signed_Division"
begin

unbundle bit_operations_syntax

section \<open>Machine types, strings and errors\<close>

text \<open>
  Go's \<^verbatim>\<open>uint32\<close> is a 32-bit word (\<open>+\<close> wraps around), a byte is an 8-bit
  word. A Go string is a sequence of bytes, compared bytewise and lexicographically
  (a proper prefix is smaller): this is the order of \<open>string\<close> with the character
  order of \<open>Char_ord\<close> and the list order of \<open>List_Lexorder\<close>. Go's \<^verbatim>\<open>int\<close> (64 bit) is
  modelled by \<open>int\<close>: the indices of this program stay far below \<open>2 ^ 63\<close>.
\<close>

type_synonym u32 = "32 word"
type_synonym byte = "8 word"

text \<open>
  The error values that travel through \<^verbatim>\<open>sstable.go\<close>: the two sentinels of package
  \<^verbatim>\<open>utils\<close>, the two end-of-file errors of \<^verbatim>\<open>io.ReadFull\<close>, \<^verbatim>\<open>os.ErrInvalid\<close> (a method
  called on a nil \<^verbatim>\<open>*os.File\<close>), the failures of \<^verbatim>\<open>os.MkdirAll\<close> and \<^verbatim>\<open>os.Create\<close>, an
  error wrapped by \<^verbatim>\<open>fmt.Errorf("...: %w", err)\<close>, and the codec's malformed record.
\<close>

datatype error =
    ErrKeyNotWithinTable
  | ErrKeyNotFound
  | EOF
  | ErrUnexpectedEOF
  | ErrInvalid
  | ErrMkdir
  | ErrCreate string
  | Wrapped string error
  | MalformedRecord

text \<open>
  A run-time panic of Go ends the call without a return value. \<open>DecodeIgnored\<close> marks
  the one place where \<^verbatim>\<open>Get\<close> discards the error of \<^verbatim>\<open>DecodeKV\<close> and goes on with a
  record whose contents the codec's description does not determine.
\<close>

datatype fault = IndexOutOfRange | NilDereference | DecodeIgnored

definition bytes_of_string :: "string \<Rightarrow> byte list" where
  "bytes_of_string s = map (\<lambda>c. word_of_nat (of_char c)) s"

definition string_of_bytes :: "byte list \<Rightarrow> string" where
  "string_of_bytes bs = map (\<lambda>b. char_of (unat b)) bs"

section \<open>Files\<close>

text \<open>
  An open \<^verbatim>\<open>*os.File\<close>: the bytes of the file, the position of the handle, and the log
  of the operations done through the handle, so that "no I/O" is a statement about the
  log. \<^verbatim>\<open>Seek(off, 0)\<close> with a non-negative offset succeeds on an open file, also beyond
  the end of the file.
\<close>

datatype io_op = OpSeek nat | OpRead nat | OpWrite nat

record os_file =
  path :: string
  contents :: "byte list"
  pos :: nat
  iolog :: "io_op list"

definition Seek :: "os_file \<Rightarrow> u32 \<Rightarrow> os_file" where
  "Seek f off = f\<lparr>pos := unat off, iolog := iolog f @ [OpSeek (unat off)]\<rparr>"

datatype read_result = ReadOK "byte list" | ReadEOF | ReadShort "byte list"

text \<open>
  \<^verbatim>\<open>io.ReadFull(f, buf)\<close> for a buffer of \<open>n\<close> bytes. An empty buffer reads nothing
  and succeeds; no byte left is \<^verbatim>\<open>io.EOF\<close>; fewer than \<open>n\<close> bytes left is
  \<^verbatim>\<open>io.ErrUnexpectedEOF\<close>, with the bytes that were read.
\<close>

definition ReadFull :: "os_file \<Rightarrow> nat \<Rightarrow> read_result \<times> os_file" where
  "ReadFull f n =
     (if n = 0 then (ReadOK [], f)
      else
        let avail = drop (pos f) (contents f);
            f' = f\<lparr>iolog := iolog f @ [OpRead n]\<rparr>
        in if avail = [] then (ReadEOF, f')
           else if length avail < n
             then (ReadShort avail, f'\<lparr>pos := length (contents f)\<rparr>)
             else (ReadOK (take n avail), f'\<lparr>pos := pos f + n\<rparr>))"

text \<open>
  Modelled from the spec: \<^verbatim>\<open>utils.WriteToFile\<close> (package \<^verbatim>\<open>utils\<close> is not among the
  sources) writes the bytes through the handle at its position. On a nil handle the
  write fails with \<^verbatim>\<open>os.ErrInvalid\<close>; the callers only print the error.
\<close>

definition WriteToFile :: "byte list \<Rightarrow> os_file option \<Rightarrow> error option \<times> os_file option" where
  "WriteToFile bs fo =
     (case fo of
        None \<Rightarrow> (Some ErrInvalid, None)
      | Some f \<Rightarrow>
          (None,
           Some (f\<lparr>contents :=
                     take (pos f) (contents f @ replicate (pos f - length (contents f)) 0)
                       @ bs @ drop (pos f + length bs) (contents f),
                   pos := pos f + length bs,
                   iolog := iolog f @ [OpWrite (length bs)]\<rparr>)))"

section \<open>Record codec\<close>

record Header =
  CheckSum :: u32
  Tombstone :: byte
  TimeStamp :: u32
  KeySize :: u32
  ValueSize :: u32

record Record =
  Header :: Header
  Key :: string
  Value :: string
  RecordSize :: u32

definition headerSize :: u32 where
  "headerSize = 17"

definition le32 :: "u32 \<Rightarrow> byte list" where
  "le32 w = [ucast w, ucast (drop_bit 8 w), ucast (drop_bit 16 w), ucast (drop_bit 24 w)]"

definition un32 :: "byte \<Rightarrow> byte \<Rightarrow> byte \<Rightarrow> byte \<Rightarrow> u32" where
  "un32 b0 b1 b2 b3 =
     ucast b0 OR push_bit 8 (ucast b1) OR push_bit 16 (ucast b2) OR push_bit 24 (ucast b3)"

text \<open>
  Modelled from the spec: \<^verbatim>\<open>Header.EncodeHeader\<close>, \<^verbatim>\<open>Header.DecodeHeader\<close>,
  \<^verbatim>\<open>Record.EncodeKV\<close> and \<^verbatim>\<open>Record.DecodeKV\<close> (the codec's file is not among the
  sources). The layout is little-endian and fixed: checksum (4 bytes), tombstone
  (1), timestamp (4), key size (4), value size (4), then the key's bytes and the
  value's bytes. Decoding reads the 17 header bytes, then exactly key size + value size
  further bytes, and fails with \<open>MalformedRecord\<close> when fewer bytes are there than the
  header declares. The decoded record's size is header size + key size + value size.
\<close>

definition EncodeHeader :: "Header \<Rightarrow> byte list" where
  "EncodeHeader h =
     le32 (CheckSum h) @ [Tombstone h] @ le32 (TimeStamp h) @ le32 (KeySize h)
       @ le32 (ValueSize h)"

definition EncodeKV :: "Record \<Rightarrow> byte list" where
  "EncodeKV r = EncodeHeader (Header r) @ bytes_of_string (Key r) @ bytes_of_string (Value r)"

definition DecodeHeader :: "byte list \<Rightarrow> error + Header" where
  "DecodeHeader bs =
     (if length bs < 17 then Inl MalformedRecord
      else Inr \<lparr>CheckSum = un32 (bs ! 0) (bs ! 1) (bs ! 2) (bs ! 3),
                Tombstone = bs ! 4,
                TimeStamp = un32 (bs ! 5) (bs ! 6) (bs ! 7) (bs ! 8),
                KeySize = un32 (bs ! 9) (bs ! 10) (bs ! 11) (bs ! 12),
                ValueSize = un32 (bs ! 13) (bs ! 14) (bs ! 15) (bs ! 16)\<rparr>)"

definition DecodeKV :: "byte list \<Rightarrow> error + Record" where
  "DecodeKV bs =
     (case DecodeHeader bs of
        Inl e \<Rightarrow> Inl e
      | Inr h \<Rightarrow>
          let ks = unat (KeySize h); vs = unat (ValueSize h)
          in if length bs < 17 + ks + vs then Inl MalformedRecord
             else Inr \<lparr>Header = h,
                       Key = string_of_bytes (take ks (drop 17 bs)),
                       Value = string_of_bytes (take vs (drop (17 + ks) bs)),
                       RecordSize = headerSize + KeySize h + ValueSize h\<rparr>)"

section \<open>Bloom filter\<close>

text \<open>
  Modelled from the spec: the bloom filter (its file is not among the sources). The bit
  array is sized from the expected number of elements, and the number of hash
  functions is derived from a target false-positive rate; both derivations and the
  hash family are parameters here. \<^verbatim>\<open>Add\<close> sets the bit at the position of each of the
  \<open>k\<close> hash functions, \<^verbatim>\<open>MightContain\<close> is true only if all \<open>k\<close> positions are set.
  A position is the hash value reduced modulo the size of the bit array.
\<close>

record bloom_params =
  bitSetSizeFor :: "u32 \<Rightarrow> u32"
  numHashFuncsFor :: "u32 \<Rightarrow> nat"
  hashFn :: "nat \<Rightarrow> string \<Rightarrow> nat"

record BloomFilter =
  bfFile :: os_file
  bitSet :: "bool list"
  bitSetSize :: u32
  numHashFuncs :: nat

definition NewBloomFilter :: "os_file \<Rightarrow> BloomFilter" where
  "NewBloomFilter f = \<lparr>bfFile = f, bitSet = [], bitSetSize = 0, numHashFuncs = 0\<rparr>"

definition InitBloomFilterAttrs :: "bloom_params \<Rightarrow> BloomFilter \<Rightarrow> u32 \<Rightarrow> BloomFilter" where
  "InitBloomFilterAttrs P bf n =
     bf\<lparr>bitSet := replicate (unat (bitSetSizeFor P n)) False,
        bitSetSize := bitSetSizeFor P n,
        numHashFuncs := numHashFuncsFor P n\<rparr>"

definition bitPositions :: "bloom_params \<Rightarrow> BloomFilter \<Rightarrow> string \<Rightarrow> nat list" where
  "bitPositions P bf s = map (\<lambda>i. hashFn P i s mod length (bitSet bf)) [0..<numHashFuncs bf]"

definition Add :: "bloom_params \<Rightarrow> BloomFilter \<Rightarrow> string \<Rightarrow> BloomFilter" where
  "Add P bf s = bf\<lparr>bitSet := fold (\<lambda>p bits. bits[p := True]) (bitPositions P bf s) (bitSet bf)\<rparr>"

definition MightContain :: "bloom_params \<Rightarrow> BloomFilter \<Rightarrow> string \<Rightarrow> bool" where
  "MightContain P bf s =
     list_all (\<lambda>p. p < length (bitSet bf) \<and> bitSet bf ! p) (bitPositions P bf s)"

section \<open>The table and the world around it\<close>

definition DataFileExtension :: string where
  "DataFileExtension = ''.data''"

definition IndexFileExtension :: string where
  "IndexFileExtension = ''.index''"

definition BloomFileExtension :: string where
  "BloomFileExtension = ''.bloom''"

definition SparseIndexSampleSize :: nat where
  "SparseIndexSampleSize = 1000"

record sparseIndex =
  keySize :: u32
  key :: string
  byteOffset :: u32

text \<open>
  The three file fields of the table are pointers: nil (\<open>None\<close>) until
  \<^verbatim>\<open>InitTableFiles\<close> has set them.
\<close>

record SSTable =
  dataFile :: "os_file option"
  indexFile :: "os_file option"
  bloomFilter :: "BloomFilter option"
  sstCounter :: u32
  minKey :: string
  maxKey :: string
  sizeInBytes :: u32
  sparseKeys :: "sparseIndex list"

text \<open>
  What the process shares with its environment: the package-level counter
  \<^verbatim>\<open>sstTableCounter\<close>, whether \<^verbatim>\<open>os.MkdirAll\<close> fails, the paths at which \<^verbatim>\<open>os.Create\<close>
  fails, and the paths of the handles that are open.
\<close>

record world =
  sstTableCounter :: u32
  mkdirFails :: bool
  createFails :: "string list"
  openHandles :: "string list"

definition os_Create :: "world \<Rightarrow> string \<Rightarrow> (error + os_file) \<times> world" where
  "os_Create w p =
     (if p \<in> set (createFails w) then (Inl (ErrCreate p), w)
      else (Inr \<lparr>path = p, contents = [], pos = 0, iolog = []\<rparr>,
            w\<lparr>openHandles := openHandles w @ [p]\<rparr>))"

definition file_Close :: "world \<Rightarrow> os_file \<Rightarrow> world" where
  "file_Close w f = w\<lparr>openHandles := remove1 (path f) (openHandles w)\<rparr>"

text \<open>The decimal digits that \<^verbatim>\<open>%d\<close> prints.\<close>

fun showDec :: "nat \<Rightarrow> string" where
  "showDec n =
     (if n < 10 then [char_of (48 + n)]
      else showDec (n div 10) @ [char_of (48 + n mod 10)])"

declare showDec.simps [simp del]

definition getNextSstFilename :: "string \<Rightarrow> u32 \<Rightarrow> string" where
  "getNextSstFilename directory c = ''../'' @ directory @ ''/sst_'' @ showDec (unat c)"

definition InitTableFiles ::
  "world \<Rightarrow> SSTable \<Rightarrow> string \<Rightarrow> error option \<times> SSTable \<times> world" where
  "InitTableFiles w sst directory =
     (if mkdirFails w then (Some ErrMkdir, sst, w)
      else
        case os_Create w (getNextSstFilename directory (sstCounter sst) @ DataFileExtension) of
          (Inl err, w1) \<Rightarrow> (Some (Wrapped ''failed to create data file'' err), sst, w1)
        | (Inr dataF, w1) \<Rightarrow>
            (case os_Create w1
                    (getNextSstFilename directory (sstCounter sst) @ IndexFileExtension) of
               (Inl err, w2) \<Rightarrow>
                 (Some (Wrapped ''failed to create index file'' err), sst, file_Close w2 dataF)
             | (Inr indexF, w2) \<Rightarrow>
                 (case os_Create w2
                         (getNextSstFilename directory (sstCounter sst) @ BloomFileExtension) of
                    (Inl err, w3) \<Rightarrow>
                      (Some (Wrapped ''failed to create bloom filter file'' err), sst,
                       file_Close (file_Close w3 dataF) indexF)
                  | (Inr bloomF, w3) \<Rightarrow>
                      (None,
                       sst\<lparr>dataFile := Some dataF, indexFile := Some indexF,
                           bloomFilter := Some (NewBloomFilter bloomF)\<rparr>,
                       w3))))"

section \<open>The write path\<close>

text \<open>
  The loop of \<^verbatim>\<open>writeEntriesToSST\<close> over the batch, from index \<open>i\<close> on. Its state is
  \<^verbatim>\<open>table.sizeInBytes\<close>, \<^verbatim>\<open>table.sparseKeys\<close>, \<^verbatim>\<open>byteOffsetCounter\<close> and the buffer.
\<close>

fun writeLoop ::
  "Record list \<Rightarrow> nat \<Rightarrow> u32 \<times> sparseIndex list \<times> u32 \<times> byte list
     \<Rightarrow> u32 \<times> sparseIndex list \<times> u32 \<times> byte list" where
  "writeLoop [] i st = st"
| "writeLoop (e # es) i (sz, sparse, byteOffsetCounter, buf) =
     writeLoop es (i + 1)
       (sz + RecordSize e,
        (if i mod SparseIndexSampleSize = 0
         then sparse @ [\<lparr>keySize = KeySize (Header e), key = Key e,
                         byteOffset = byteOffsetCounter\<rparr>]
         else sparse),
        byteOffsetCounter + RecordSize e,
        buf @ EncodeKV e)"

definition encodeSparseIndex :: "sparseIndex \<Rightarrow> byte list" where
  "encodeSparseIndex x = le32 (keySize x) @ bytes_of_string (key x) @ le32 (byteOffset x)"

definition populateSparseIndexFile :: "sparseIndex list \<Rightarrow> os_file option \<Rightarrow> os_file option" where
  "populateSparseIndexFile indices f =
     snd (WriteToFile (concat (map encodeSparseIndex indices)) f)"

text \<open>
  \<^verbatim>\<open>populateBloomFilter\<close>: every key of the batch is added; then the bit array is written
  as one byte per bit. The byte slice has \<^verbatim>\<open>bitSetSize\<close> elements, so a longer bit array
  would be an index out of range.
\<close>

definition populateBloomFilter ::
  "bloom_params \<Rightarrow> Record list \<Rightarrow> BloomFilter \<Rightarrow> fault + BloomFilter" where
  "populateBloomFilter P entries bf =
     (let bf1 = fold (\<lambda>e b. Add P b (Key e)) entries bf
      in if unat (bitSetSize bf1) < length (bitSet bf1) then Inl IndexOutOfRange
         else
           let bfBytes = map (\<lambda>b. if b then 1 else 0) (bitSet bf1)
                           @ replicate (unat (bitSetSize bf1) - length (bitSet bf1)) 0
           in Inr (case snd (WriteToFile bfBytes (Some (bfFile bf1))) of
                     None \<Rightarrow> bf1
                   | Some f \<Rightarrow> bf1\<lparr>bfFile := f\<rparr>))"

definition writeEntriesToSST ::
  "bloom_params \<Rightarrow> Record list \<Rightarrow> SSTable \<Rightarrow> fault + SSTable" where
  "writeEntriesToSST P sortedEntries table =
     (if sortedEntries = [] then Inl IndexOutOfRange
      else
        let t1 = table\<lparr>minKey := Key (hd sortedEntries), maxKey := Key (last sortedEntries)\<rparr>;
            (sz, sparse, byteOffsetCounter, buf) =
               writeLoop sortedEntries 0 (sizeInBytes t1, sparseKeys t1, 0, []);
            t2 = t1\<lparr>sizeInBytes := sz, sparseKeys := sparse\<rparr>;
            t3 = t2\<lparr>dataFile := snd (WriteToFile buf (dataFile t2))\<rparr>;
            t4 = t3\<lparr>indexFile := populateSparseIndexFile (sparseKeys t3) (indexFile t3)\<rparr>
        in case bloomFilter t4 of
             None \<Rightarrow> Inl NilDereference
           | Some bf \<Rightarrow>
               (case populateBloomFilter P sortedEntries
                       (InitBloomFilterAttrs P bf (word_of_nat (length sortedEntries))) of
                  Inl flt \<Rightarrow> Inl flt
                | Inr bf' \<Rightarrow> Inr (t4\<lparr>bloomFilter := Some bf'\<rparr>)))"

text \<open>
  \<^verbatim>\<open>InitSSTableOnDisk\<close> increments the counter, creates the files and writes the batch.
  The error that \<^verbatim>\<open>InitTableFiles\<close> returns is not looked at; the function has no error
  result of its own.
\<close>

definition InitSSTableOnDisk ::
  "bloom_params \<Rightarrow> world \<Rightarrow> string \<Rightarrow> Record list \<Rightarrow> (fault + SSTable) \<times> world" where
  "InitSSTableOnDisk P w directory entries =
     (let w1 = w\<lparr>sstTableCounter := sstTableCounter w + 1\<rparr>;
          table = \<lparr>dataFile = None, indexFile = None, bloomFilter = None,
                   sstCounter = sstTableCounter w1, minKey = [], maxKey = [],
                   sizeInBytes = 0, sparseKeys = []\<rparr>;
          (err, table1, w2) = InitTableFiles w1 table directory
      in (writeEntriesToSST P entries table1, w2))"

section \<open>The read path\<close>

text \<open>
  The loop of \<^verbatim>\<open>getCandidateByteOffsetIndex\<close>. \<open>sdiv\<close> is Go's truncating division.
  Indexing \<^verbatim>\<open>sparseKeys\<close> outside its bounds panics. After the loop the arguments of the
  log call are evaluated, among them \<^verbatim>\<open>sst.sparseKeys[low-1].byteOffset\<close>, before
  \<^verbatim>\<open>low - 1\<close> is returned.
\<close>

function candidateLoop :: "sparseIndex list \<Rightarrow> string \<Rightarrow> int \<Rightarrow> int \<Rightarrow> fault + int" where
  "candidateLoop sk targetKey low high =
     (if low \<le> high then
        let mid = (low + high) sdiv 2
        in if mid < 0 \<or> int (length sk) \<le> mid then Inl IndexOutOfRange
           else if targetKey > key (sk ! nat mid) then candidateLoop sk targetKey (mid + 1) high
           else if targetKey < key (sk ! nat mid) then candidateLoop sk targetKey low (mid - 1)
           else Inr mid
      else if low - 1 < 0 \<or> int (length sk) \<le> low - 1 then Inl IndexOutOfRange
      else Inr (low - 1))"
  by pat_completeness auto
termination
  by (relation "measure (\<lambda>(sk, targetKey, low, high). nat (high - low + 1))")
     (auto simp: signed_divide_int_def sgn_if split: if_splits)

declare candidateLoop.simps [simp del]

definition getCandidateByteOffsetIndex :: "SSTable \<Rightarrow> string \<Rightarrow> fault + int" where
  "getCandidateByteOffsetIndex sst targetKey =
     candidateLoop (sparseKeys sst) targetKey 0 (int (length (sparseKeys sst)) - 1)"

text \<open>
  What \<^verbatim>\<open>Get\<close> gives back: the pair of a value and an error (\<open>None\<close> is nil), or a
  fault.
\<close>

datatype get_result = Returned string "error option" | Aborted fault

text \<open>
  One pass through the body of the scan loop, at offset \<open>currOffset\<close>, in two parts.
  \<open>scanRead\<close> reads the header and the rest of the record and decodes it: it leaves
  \<^verbatim>\<open>Get\<close> early (end of file, a failed read), or hands on the decoded record, the
  offset behind the header and the file. The header buffer has 17 bytes, zero where
  \<^verbatim>\<open>io.ReadFull\<close> did not fill it; only \<^verbatim>\<open>io.EOF\<close> is tested after the first read.
  \<open>scanBody\<close> then compares the record's key with the target: it leaves \<^verbatim>\<open>Get\<close> with a
  result, or goes on at the offset behind the record.
\<close>

definition scanRead ::
  "os_file \<Rightarrow> u32 \<Rightarrow> (get_result \<times> os_file) + (Record \<times> u32 \<times> os_file)" where
  "scanRead f currOffset =
     (case ReadFull f 17 of
        (ReadEOF, f1) \<Rightarrow> Inl (Returned [] (Some EOF), f1)
      | (hr, f1) \<Rightarrow>
         (let got = (case hr of ReadOK bs \<Rightarrow> bs | ReadShort bs \<Rightarrow> bs | ReadEOF \<Rightarrow> []);
              currEntry = got @ replicate (17 - length got) 0
          in (case DecodeHeader currEntry of
                Inl err \<Rightarrow> Inl (Aborted DecodeIgnored, f1)
              | Inr h \<Rightarrow>
                 (let off1 = currOffset + headerSize;
                      f2 = Seek f1 off1
                  in (case ReadFull f2 (unat (KeySize h + ValueSize h)) of
                        (ReadEOF, f3) \<Rightarrow> Inl (Returned [] (Some EOF), f3)
                      | (ReadShort bs, f3) \<Rightarrow> Inl (Returned [] (Some ErrUnexpectedEOF), f3)
                      | (ReadOK currRecord, f3) \<Rightarrow>
                         (case DecodeKV (currEntry @ currRecord) of
                            Inl err \<Rightarrow> Inl (Aborted DecodeIgnored, f3)
                          | Inr r \<Rightarrow> Inr (r, off1, f3)))))))"

datatype scan_step = Return get_result os_file | Continue u32 os_file

definition scanBody :: "os_file \<Rightarrow> string \<Rightarrow> u32 \<Rightarrow> scan_step" where
  "scanBody f targetKey currOffset =
     (case scanRead f currOffset of
        Inl (res, f') \<Rightarrow> Return res f'
      | Inr (r, off1, f3) \<Rightarrow>
         (if Key r = targetKey then Return (Returned (Value r) None) f3
          else if Key r > targetKey then Return (Returned [] (Some ErrKeyNotWithinTable)) f3
          else
           (let off2 = off1 + (KeySize (Header r) + ValueSize (Header r))
            in Continue off2 (Seek f3 off2))))"

text \<open>
  The loop \<^verbatim>\<open>for keyFound == false || eofErr == nil\<close> with the statement after it.
  The loop need not end (offsets are 32-bit and wrap around), so it is a partial
  function: \<open>None\<close> is a loop that runs forever.
\<close>

partial_function (option) scanLoop ::
  "os_file \<Rightarrow> string \<Rightarrow> u32 \<Rightarrow> bool \<Rightarrow> error option \<Rightarrow> (get_result \<times> os_file) option" where
  "scanLoop f targetKey currOffset keyFound eofErr =
     (if keyFound = False \<or> eofErr = None then
        (case scanBody f targetKey currOffset of
           Return res f' \<Rightarrow> Some (res, f')
         | Continue off' f' \<Rightarrow> scanLoop f' targetKey off' keyFound eofErr)
      else Some (Returned [] (Some ErrKeyNotFound), f))"

declare scanLoop.simps [code]

definition Get ::
  "bloom_params \<Rightarrow> SSTable \<Rightarrow> string \<Rightarrow> (get_result \<times> SSTable) option" where
  "Get P sst targetKey =
     (if targetKey < minKey sst \<or> targetKey > maxKey sst
        then Some (Returned ''<!>'' (Some ErrKeyNotWithinTable), sst)
      else
       (case bloomFilter sst of
          None \<Rightarrow> Some (Aborted NilDereference, sst)
        | Some bf \<Rightarrow>
           (if \<not> MightContain P bf targetKey
              then Some (Returned [] (Some ErrKeyNotWithinTable), sst)
            else
             (case getCandidateByteOffsetIndex sst targetKey of
                Inl flt \<Rightarrow> Some (Aborted flt, sst)
              | Inr i \<Rightarrow>
                 (if i < 0 \<or> int (length (sparseKeys sst)) \<le> i
                    then Some (Aborted IndexOutOfRange, sst)
                  else
                   (let currOffset = byteOffset (sparseKeys sst ! nat i)
                    in (case dataFile sst of
                          None \<Rightarrow> Some (Returned [] (Some ErrInvalid), sst)
                        | Some f \<Rightarrow>
                            map_option (\<lambda>(res, f'). (res, sst\<lparr>dataFile := Some f'\<rparr>))
                              (scanLoop (Seek f currOffset) targetKey currOffset False
                                 None))))))))"

text \<open>
  The state of the scan loop at the head of its \<open>n\<close>-th pass (counted from 0): the file
  and the offset; \<open>None\<close> when the loop has left \<^verbatim>\<open>Get\<close> before.
\<close>

fun scanAt :: "nat \<Rightarrow> os_file \<Rightarrow> string \<Rightarrow> u32 \<Rightarrow> (os_file \<times> u32) option" where
  "scanAt 0 f targetKey currOffset = Some (f, currOffset)"
| "scanAt (Suc n) f targetKey currOffset =
     (case scanBody f targetKey currOffset of
        Return res f' \<Rightarrow> None
      | Continue off' f' \<Rightarrow> scanAt n f' targetKey off')"

section \<open>Well-formed data\<close>

text \<open>
  The header's invariant: the key and value lengths match the bytes that follow. A
  well-formed data file is the concatenation of the encodings of such records.
\<close>

definition validRecord :: "Record \<Rightarrow> bool" where
  "validRecord r \<longleftrightarrow>
     unat (KeySize (Header r)) = length (Key r) \<and> unat (ValueSize (Header r)) = length (Value r)"

definition dataOf :: "Record list \<Rightarrow> byte list" where
  "dataOf rs = concat (map EncodeKV rs)"

definition wellFormedData :: "Record list \<Rightarrow> byte list \<Rightarrow> bool" where
  "wellFormedData rs bs \<longleftrightarrow> list_all validRecord rs \<and> bs = dataOf rs"

section \<open>An example table\<close>

text \<open>
  A batch with the keys a, c and e, a bloom filter of 16 bits with one hash function
  (for which b and d are false positives and b0 is rejected), and the table that
  \<open>InitSSTableOnDisk\<close> builds from them.
\<close>

definition exRecord :: "string \<Rightarrow> string \<Rightarrow> Record" where
  "exRecord k v =
     \<lparr>Header = \<lparr>CheckSum = 0, Tombstone = 0, TimeStamp = 0,
                 KeySize = word_of_nat (length k), ValueSize = word_of_nat (length v)\<rparr>,
      Key = k, Value = v,
      RecordSize = headerSize + word_of_nat (length k) + word_of_nat (length v)\<rparr>"

definition exParams :: bloom_params where
  "exParams =
     \<lparr>bitSetSizeFor = (\<lambda>n. 16), numHashFuncsFor = (\<lambda>n. 1),
      hashFn = (\<lambda>i s. (length s + sum_list (map of_char s)) div 2 + i)\<rparr>"

definition exWorld :: world where
  "exWorld = \<lparr>sstTableCounter = 0, mkdirFails = False, createFails = [], openHandles = []\<rparr>"

definition exBatch :: "Record list" where
  "exBatch = [exRecord ''a'' ''1'', exRecord ''c'' ''3'', exRecord ''e'' ''5'']"

definition exData :: os_file where
  "exData =
     \<lparr>path = ''../storage/sst_1.data'',
      contents =
        [0, 0, 0, 0, 0, 0, 0, 0, 0, 1, 0, 0, 0, 1, 0, 0, 0, 97, 49,
         0, 0, 0, 0, 0, 0, 0, 0, 0, 1, 0, 0, 0, 1, 0, 0, 0, 99, 51,
         0, 0, 0, 0, 0, 0, 0, 0, 0, 1, 0, 0, 0, 1, 0, 0, 0, 101, 53],
      pos = 57, iolog = [OpWrite 57]\<rparr>"

definition exBloom :: BloomFilter where
  "exBloom =
     \<lparr>bfFile = \<lparr>path = ''../storage/sst_1.bloom'',
                 contents = [0, 1, 1, 1, 0, 0, 0, 0, 0, 0, 0, 0, 0, 0, 0, 0],
                 pos = 16, iolog = [OpWrite 16]\<rparr>,
      bitSet = [False, True, True, True, False, False, False, False,
                False, False, False, False, False, False, False, False],
      bitSetSize = 16, numHashFuncs = 1\<rparr>"

definition exTable :: SSTable where
  "exTable =
     \<lparr>dataFile = Some exData,
      indexFile = Some \<lparr>path = ''../storage/sst_1.index'',
                         contents = [1, 0, 0, 0, 97, 0, 0, 0, 0], pos = 9,
                         iolog = [OpWrite 9]\<rparr>,
      bloomFilter = Some exBloom,
      sstCounter = 1, minKey = ''a'', maxKey = ''e'', sizeInBytes = 57,
      sparseKeys = [\<lparr>keySize = 1, key = ''a'', byteOffset = 0\<rparr>]\<rparr>"

text \<open>
  A record whose key has \<open>2 ^ 32 - 17\<close> bytes, all a, and whose value is empty, and a
  data file that holds the encoding of this one record: \<open>2 ^ 32\<close> bytes.
\<close>

definition bigRecord :: Record where
  "bigRecord =
     \<lparr>Header = \<lparr>CheckSum = 0, Tombstone = 0, TimeStamp = 0,
                 KeySize = 4294967279, ValueSize = 0\<rparr>,
      Key = replicate 4294967279 (CHR ''a''), Value = [],
      RecordSize = 0\<rparr>"

definition bigData :: os_file where
  "bigData = \<lparr>path = ''../storage/sst_2.data'', contents = EncodeKV bigRecord,
               pos = 0, iolog = []\<rparr>"

section \<open>The example table is what the build path produces\<close>

lemma exTable_built:
  "InitSSTableOnDisk exParams exWorld ''storage'' exBatch =
     (Inr exTable,
      exWorld\<lparr>sstTableCounter := 1,
              openHandles := [''../storage/sst_1.data'', ''../storage/sst_1.index'',
                              ''../storage/sst_1.bloom'']\<rparr>)"
  by code_simp

section \<open>Rejections without a scan\<close>

text \<open>
  Claim C2. For every table and every key with key < minKey or key > maxKey, \<^verbatim>\<open>Get\<close>
  returns the out-of-range outcome (the value \<^verbatim>\<open><!>\<close> with \<open>ErrKeyNotWithinTable\<close>) and
  performs no file I/O: the table it leaves behind is the table it was given, its data
  file with the same position and the same log of seeks and reads.
\<close>

theorem Get_out_of_range:
  assumes "targetKey < minKey sst \<or> targetKey > maxKey sst"
  shows "Get P sst targetKey = Some (Returned ''<!>'' (Some ErrKeyNotWithinTable), sst)"
  using assms by (simp add: Get_def)

theorem Get_out_of_range_witness:
  "(''f'' < minKey exTable \<or> ''f'' > maxKey exTable) \<and>
   Get exParams exTable ''f'' = Some (Returned ''<!>'' (Some ErrKeyNotWithinTable), exTable)"
proof -
  have h: "''f'' < minKey exTable \<or> ''f'' > maxKey exTable"
    by (simp add: exTable_def)
  show ?thesis
    by (rule conjI [OF h Get_out_of_range [OF h]])
qed

text \<open>
  Claim C10. The two rejections without a scan return different value strings with the
  same error: a key below minKey or above maxKey gives the string \<^verbatim>\<open><!>\<close> with
  \<open>ErrKeyNotWithinTable\<close>; a key in range that the bloom filter rejects gives the empty
  string with \<open>ErrKeyNotWithinTable\<close>.
\<close>

theorem Get_rejections_differ:
  "(targetKey < minKey sst \<or> targetKey > maxKey sst \<longrightarrow>
      map_option fst (Get P sst targetKey) = Some (Returned ''<!>'' (Some ErrKeyNotWithinTable)))
   \<and> (minKey sst \<le> targetKey \<and> targetKey \<le> maxKey sst \<and> bloomFilter sst = Some bf
        \<and> \<not> MightContain P bf targetKey \<longrightarrow>
      map_option fst (Get P sst targetKey) = Some (Returned [] (Some ErrKeyNotWithinTable)))"
  by (auto simp: Get_def)

theorem Get_rejections_differ_witness:
  "map_option fst (Get exParams exTable ''f'') = Some (Returned ''<!>'' (Some ErrKeyNotWithinTable))
   \<and> minKey exTable \<le> ''b0'' \<and> ''b0'' \<le> maxKey exTable \<and> bloomFilter exTable = Some exBloom
   \<and> \<not> MightContain exParams exBloom ''b0''
   \<and> map_option fst (Get exParams exTable ''b0'') = Some (Returned [] (Some ErrKeyNotWithinTable))"
proof -
  have out: "''f'' < minKey exTable \<or> ''f'' > maxKey exTable"
    by (simp add: exTable_def)
  have range: "minKey exTable \<le> ''b0'' \<and> ''b0'' \<le> maxKey exTable"
    by (simp add: exTable_def)
  have bloom: "bloomFilter exTable = Some exBloom"
    by (simp add: exTable_def)
  have reject: "\<not> MightContain exParams exBloom ''b0''"
    by code_simp
  have first: "map_option fst (Get exParams exTable ''f'') =
      Some (Returned ''<!>'' (Some ErrKeyNotWithinTable))"
    using Get_rejections_differ [of "''f''" exTable exParams] out by blast
  have second: "map_option fst (Get exParams exTable ''b0'') =
      Some (Returned [] (Some ErrKeyNotWithinTable))"
    using Get_rejections_differ [of "''b0''" exTable exParams exBloom] range bloom reject
    by blast
  from first range bloom reject second show ?thesis by blast
qed

section \<open>The candidate index\<close>

lemma sdiv2_nonneg: "0 \<le> (a::int) \<Longrightarrow> a sdiv 2 = a div 2"
  by (simp add: signed_divide_int_def sgn_if)

lemma candidateLoop_in_bounds:
  assumes "0 \<le> low" "high < int (length sk)" "low \<le> high + 1"
    and "low = 0 \<longrightarrow> 0 \<le> high \<and> key (sk ! 0) \<le> targetKey"
  shows "\<exists>i. candidateLoop sk targetKey low high = Inr i \<and> 0 \<le> i \<and> low - 1 \<le> i \<and> i \<le> high"
  using assms
proof (induction sk targetKey low high rule: candidateLoop.induct)
  case (1 sk targetKey low high)
  show ?case
  proof (cases "low \<le> high")
    case False
    with "1.prems" have "low = high + 1" "0 < low" by auto
    with "1.prems" show ?thesis
      by (subst candidateLoop.simps) auto
  next
    case True
    define mid where "mid = (low + high) sdiv 2"
    have mid_eq: "mid = (low + high) div 2"
      unfolding mid_def using "1.prems" True by (intro sdiv2_nonneg) linarith
    have mid_bounds: "low \<le> mid" "mid \<le> high" "0 \<le> mid" "mid < int (length sk)"
      using mid_eq True "1.prems" by auto
    consider (gt) "targetKey > key (sk ! nat mid)"
      | (lt) "\<not> targetKey > key (sk ! nat mid)" "targetKey < key (sk ! nat mid)"
      | (eq) "\<not> targetKey > key (sk ! nat mid)" "\<not> targetKey < key (sk ! nat mid)"
      by blast
    then show ?thesis
    proof cases
      case gt
      have "\<exists>i. candidateLoop sk targetKey (mid + 1) high = Inr i \<and> 0 \<le> i \<and> (mid + 1) - 1 \<le> i \<and> i \<le> high"
        using "1.IH"(1) [OF True mid_def] mid_bounds gt "1.prems" by auto
      then show ?thesis
        using True gt mid_bounds
        by (subst candidateLoop.simps) (auto simp: Let_def mid_def [symmetric])
    next
      case lt
      have "mid \<noteq> 0"
      proof
        assume "mid = 0"
        with mid_bounds "1.prems" have "low = 0" by auto
        with "1.prems" have "key (sk ! 0) \<le> targetKey" by auto
        with lt \<open>mid = 0\<close> show False by auto
      qed
      with mid_bounds have "0 < mid" by auto
      have "\<exists>i. candidateLoop sk targetKey low (mid - 1) = Inr i \<and> 0 \<le> i \<and> low - 1 \<le> i \<and> i \<le> mid - 1"
        using "1.IH"(2) [OF True mid_def] mid_bounds lt "1.prems" \<open>0 < mid\<close> by auto
      then show ?thesis
        using True lt mid_bounds
        by (subst candidateLoop.simps) (auto simp: Let_def mid_def [symmetric])
    next
      case eq
      then show ?thesis
        using True mid_bounds
        by (subst candidateLoop.simps) (auto simp: Let_def mid_def [symmetric])
    qed
  qed
qed

lemma candidateLoop_below_all:
  assumes "\<forall>x \<in> set sk. targetKey < key x" "- 1 \<le> high" "high < int (length sk)"
  shows "candidateLoop sk targetKey 0 high = Inl IndexOutOfRange"
  using assms
proof (induction "nat (high + 1)" arbitrary: high rule: less_induct)
  case less
  show ?case
  proof (cases "0 \<le> high")
    case False
    then show ?thesis by (subst candidateLoop.simps) auto
  next
    case True
    define mid where "mid = high sdiv 2"
    have mid_eq: "mid = high div 2"
      unfolding mid_def using True by (simp add: sdiv2_nonneg)
    have mid_bounds: "0 \<le> mid" "mid \<le> high" "mid < int (length sk)"
      using mid_eq True less.prems by auto
    have lt: "targetKey < key (sk ! nat mid)"
      using less.prems(1) mid_bounds by (simp add: nth_mem)
    then have ngt: "\<not> targetKey > key (sk ! nat mid)" by auto
    have "candidateLoop sk targetKey 0 (mid - 1) = Inl IndexOutOfRange"
      using less.hyps [of "mid - 1"] less.prems mid_bounds by auto
    then show ?thesis
      using True lt ngt mid_bounds
      by (subst candidateLoop.simps) (auto simp: Let_def mid_def [symmetric])
  qed
qed

text \<open>
  Claim C9. When the sparse-key array is not empty, its first key is minKey (as the
  build path establishes) and the target key is at least minKey, then
  \<^verbatim>\<open>getCandidateByteOffsetIndex\<close> returns an index between 0 and
  \<^verbatim>\<open>len(sparseKeys) - 1\<close>, so that the indexing of \<^verbatim>\<open>sparseKeys\<close> in \<^verbatim>\<open>Get\<close> is in bounds.
\<close>

theorem candidate_index_in_bounds:
  assumes "sparseKeys sst \<noteq> []"
    and "key (sparseKeys sst ! 0) = minKey sst"
    and "minKey sst \<le> targetKey"
  shows "\<exists>i. getCandidateByteOffsetIndex sst targetKey = Inr i
           \<and> 0 \<le> i \<and> i \<le> int (length (sparseKeys sst)) - 1"
proof -
  have "\<exists>i. candidateLoop (sparseKeys sst) targetKey 0 (int (length (sparseKeys sst)) - 1) = Inr i
          \<and> 0 \<le> i \<and> 0 - 1 \<le> i \<and> i \<le> int (length (sparseKeys sst)) - 1"
    using assms by (intro candidateLoop_in_bounds) (auto simp: Suc_le_eq)
  then show ?thesis
    by (auto simp: getCandidateByteOffsetIndex_def)
qed

theorem candidate_index_in_bounds_witness:
  "sparseKeys exTable \<noteq> [] \<and> key (sparseKeys exTable ! 0) = minKey exTable
   \<and> minKey exTable \<le> ''b''
   \<and> (\<exists>i. getCandidateByteOffsetIndex exTable ''b'' = Inr i
          \<and> 0 \<le> i \<and> i \<le> int (length (sparseKeys exTable)) - 1)"
proof -
  have h1: "sparseKeys exTable \<noteq> []"
    by (simp add: exTable_def)
  have h2: "key (sparseKeys exTable ! 0) = minKey exTable"
    by (simp add: exTable_def)
  have h3: "minKey exTable \<le> ''b''"
    by (simp add: exTable_def)
  show ?thesis
    by (intro conjI h1 h2 h3 candidate_index_in_bounds [OF h1 h2 h3])
qed

lemma candidateLoop_Inr_in_bounds:
  "candidateLoop sk targetKey low high = Inr i \<Longrightarrow> 0 \<le> i \<and> i < int (length sk)"
proof (induction sk targetKey low high rule: candidateLoop.induct)
  case (1 sk targetKey low high)
  from "1.prems" have
    "(if low \<le> high then
        let mid = (low + high) sdiv 2
        in if mid < 0 \<or> int (length sk) \<le> mid then Inl IndexOutOfRange
           else if targetKey > key (sk ! nat mid) then candidateLoop sk targetKey (mid + 1) high
           else if targetKey < key (sk ! nat mid) then candidateLoop sk targetKey low (mid - 1)
           else Inr mid
      else if low - 1 < 0 \<or> int (length sk) \<le> low - 1 then Inl IndexOutOfRange
      else Inr (low - 1)) = Inr i"
    by (subst (asm) candidateLoop.simps)
  then show ?case
    using "1.IH" by (auto simp: Let_def split: if_splits)
qed

text \<open>
  Claim C4. For a sparse index whose keys are strictly ascending and a target key
  strictly smaller than every sparse key, the search was to give an explicit "no
  candidate" sentinel rather than an out-of-bounds index. The search has no sentinel:
  every index that \<^verbatim>\<open>getCandidateByteOffsetIndex\<close> returns lies within the bounds of the
  sparse-key array. What keeps such a target away from the search is the range check
  of \<^verbatim>\<open>Get\<close>: when the first sparse key is minKey, a target smaller than every sparse
  key is below minKey, and \<^verbatim>\<open>Get\<close> returns the out-of-range outcome without touching
  the sparse index or the data file.
\<close>

theorem candidate_search_guarded:
  "(getCandidateByteOffsetIndex sst targetKey = Inr i \<longrightarrow>
      0 \<le> i \<and> i < int (length (sparseKeys sst)))
   \<and> (sparseKeys sst \<noteq> [] \<and> key (sparseKeys sst ! 0) = minKey sst
        \<and> list_all (\<lambda>x. targetKey < key x) (sparseKeys sst) \<longrightarrow>
      Get P sst targetKey = Some (Returned ''<!>'' (Some ErrKeyNotWithinTable), sst))"
proof (rule conjI; rule impI)
  assume "getCandidateByteOffsetIndex sst targetKey = Inr i"
  then show "0 \<le> i \<and> i < int (length (sparseKeys sst))"
    unfolding getCandidateByteOffsetIndex_def by (rule candidateLoop_Inr_in_bounds)
next
  assume a: "sparseKeys sst \<noteq> [] \<and> key (sparseKeys sst ! 0) = minKey sst
        \<and> list_all (\<lambda>x. targetKey < key x) (sparseKeys sst)"
  then have mem: "sparseKeys sst ! 0 \<in> set (sparseKeys sst)"
    by simp
  from a have "\<forall>x \<in> set (sparseKeys sst). targetKey < key x"
    by (simp add: list_all_iff)
  from this mem have "targetKey < key (sparseKeys sst ! 0)"
    by (rule bspec)
  with a have "targetKey < minKey sst"
    by simp
  then show "Get P sst targetKey = Some (Returned ''<!>'' (Some ErrKeyNotWithinTable), sst)"
    by (simp add: Get_def)
qed

theorem candidate_search_guarded_witness:
  "getCandidateByteOffsetIndex exTable ''b'' = Inr 0
   \<and> (0::int) \<le> 0 \<and> (0::int) < int (length (sparseKeys exTable))
   \<and> sparseKeys exTable \<noteq> [] \<and> key (sparseKeys exTable ! 0) = minKey exTable
   \<and> list_all (\<lambda>x. ''A'' < key x) (sparseKeys exTable)
   \<and> Get exParams exTable ''A'' = Some (Returned ''<!>'' (Some ErrKeyNotWithinTable), exTable)"
proof -
  have h1: "getCandidateByteOffsetIndex exTable ''b'' = Inr 0"
    by code_simp
  have h2: "sparseKeys exTable \<noteq> [] \<and> key (sparseKeys exTable ! 0) = minKey exTable
        \<and> list_all (\<lambda>x. ''A'' < key x) (sparseKeys exTable)"
    by (simp add: exTable_def)
  have r1: "(0::int) \<le> 0 \<and> (0::int) < int (length (sparseKeys exTable))"
    by (rule candidate_search_guarded [where sst = exTable and targetKey = "''b''" and i = 0,
          THEN conjunct1, THEN mp, OF h1])
  have r2: "Get exParams exTable ''A''
      = Some (Returned ''<!>'' (Some ErrKeyNotWithinTable), exTable)"
    by (rule candidate_search_guarded [where sst = exTable and targetKey = "''A''"
          and P = exParams, THEN conjunct2, THEN mp, OF h2])
  show ?thesis
    by (intro conjI h1 r1 [THEN conjunct1] r1 [THEN conjunct2] h2 [THEN conjunct1]
          h2 [THEN conjunct2, THEN conjunct1] h2 [THEN conjunct2, THEN conjunct2] r2)
qed

text \<open>
  The claim as it was stated fails on the sparse keys c and m with the target a: the
  search gives no sentinel. Its loop ends with \<open>low = 0\<close>, and the argument
  \<^verbatim>\<open>sst.sparseKeys[low-1].byteOffset\<close> of the log call indexes the array at -1.
\<close>

theorem candidate_below_all_panics:
  "getCandidateByteOffsetIndex
     (exTable\<lparr>minKey := ''c'', maxKey := ''x'',
              sparseKeys := [\<lparr>keySize = 1, key = ''c'', byteOffset = 0\<rparr>,
                             \<lparr>keySize = 1, key = ''m'', byteOffset = 19000\<rparr>]\<rparr>) ''a''
   = Inl IndexOutOfRange"
  by code_simp

text \<open>The same for every sparse index, ascending or not, empty or not.\<close>

lemma getCandidateByteOffsetIndex_below_all:
  assumes "\<forall>x \<in> set (sparseKeys sst). targetKey < key x"
  shows "getCandidateByteOffsetIndex sst targetKey = Inl IndexOutOfRange"
  unfolding getCandidateByteOffsetIndex_def
  using assms by (intro candidateLoop_below_all) auto

section \<open>The write path: sparse index\<close>

lemma writeLoop_eq:
  "writeLoop es i (sz, sp, ctr, buf) =
     (sz + sum_list (map RecordSize es),
      sp @ map (\<lambda>j. \<lparr>keySize = KeySize (Header (es ! (j - i))), key = Key (es ! (j - i)),
                      byteOffset = ctr + sum_list (map RecordSize (take (j - i) es))\<rparr>)
             (filter (\<lambda>j. j mod SparseIndexSampleSize = 0) [i..<i + length es]),
      ctr + sum_list (map RecordSize es),
      buf @ concat (map EncodeKV es))"
proof (induction es arbitrary: i sz sp ctr buf)
  case Nil
  then show ?case by simp
next
  case (Cons e es)
  define F where "F = (\<lambda>j. \<lparr>keySize = KeySize (Header ((e # es) ! (j - i))),
      key = Key ((e # es) ! (j - i)),
      byteOffset = ctr + sum_list (map RecordSize (take (j - i) (e # es)))\<rparr>)"
  define G where "G = (\<lambda>j. \<lparr>keySize = KeySize (Header (es ! (j - Suc i))),
      key = Key (es ! (j - Suc i)),
      byteOffset = (ctr + RecordSize e) + sum_list (map RecordSize (take (j - Suc i) es))\<rparr>)"
  define L where "L = filter (\<lambda>j. j mod SparseIndexSampleSize = 0) [Suc i..<Suc i + length es]"
  define sp' where "sp' = (if i mod SparseIndexSampleSize = 0
      then sp @ [\<lparr>keySize = KeySize (Header e), key = Key e, byteOffset = ctr\<rparr>] else sp)"
  have upt: "[i..<i + length (e # es)] = i # [Suc i..<Suc i + length es]"
    by (simp del: upt_Suc add: upt_conv_Cons)
  have FG: "map F L = map G L"
  proof (rule map_cong [OF refl])
    fix j assume "j \<in> set L"
    then have "Suc i \<le> j" by (auto simp: L_def)
    then have "j - i = Suc (j - Suc i)" by simp
    then show "F j = G j"
      by (simp add: F_def G_def add.assoc)
  qed
  have Fi: "F i = \<lparr>keySize = KeySize (Header e), key = Key e, byteOffset = ctr\<rparr>"
    by (simp add: F_def)
  have IH': "writeLoop es (Suc i) (sz + RecordSize e, sp', ctr + RecordSize e, buf @ EncodeKV e)
      = (sz + RecordSize e + sum_list (map RecordSize es), sp' @ map G L,
         ctr + RecordSize e + sum_list (map RecordSize es),
         (buf @ EncodeKV e) @ concat (map EncodeKV es))"
    unfolding G_def L_def by (rule Cons.IH)
  have "writeLoop (e # es) i (sz, sp, ctr, buf)
      = writeLoop es (Suc i) (sz + RecordSize e, sp', ctr + RecordSize e, buf @ EncodeKV e)"
    by (simp add: sp'_def)
  also note IH'
  also have "(sz + RecordSize e + sum_list (map RecordSize es), sp' @ map G L,
         ctr + RecordSize e + sum_list (map RecordSize es),
         (buf @ EncodeKV e) @ concat (map EncodeKV es))
      = (sz + sum_list (map RecordSize (e # es)),
         sp @ map F (filter (\<lambda>j. j mod SparseIndexSampleSize = 0) (i # [Suc i..<Suc i + length es])),
         ctr + sum_list (map RecordSize (e # es)),
         buf @ concat (map EncodeKV (e # es)))"
    unfolding filter.simps L_def [symmetric]
    by (simp add: sp'_def Fi FG add.assoc)
  finally show ?case
    unfolding upt F_def .
qed






text \<open>What a successful run of the write path leaves in the table.\<close>

lemma writeEntriesToSST_Inr:
  assumes "writeEntriesToSST P es table = Inr t"
  shows "es \<noteq> []"
    and "minKey t = Key (hd es)"
    and "maxKey t = Key (last es)"
    and "sparseKeys t = fst (snd (writeLoop es 0 (sizeInBytes table, sparseKeys table, 0, [])))"
    and "\<exists>bf0 bf. bloomFilter table = Some bf0
           \<and> populateBloomFilter P es (InitBloomFilterAttrs P bf0 (word_of_nat (length es))) = Inr bf
           \<and> bloomFilter t = Some bf"
  using assms
  by (auto simp: writeEntriesToSST_def writeLoop_eq Let_def
           split: if_splits option.splits sum.splits)

lemma InitTableFiles_sparseKeys:
  "InitTableFiles w table directory = (err, table1, w1) \<Longrightarrow> sparseKeys table1 = sparseKeys table"
  by (auto simp: InitTableFiles_def split: if_splits prod.splits sum.splits)

lemma InitSSTableOnDisk_Inr:
  assumes "InitSSTableOnDisk P w directory es = (Inr t, w')"
  shows "\<exists>table1. writeEntriesToSST P es table1 = Inr t \<and> sparseKeys table1 = []"
proof -
  define table where "table = \<lparr>dataFile = None, indexFile = None, bloomFilter = None,
      sstCounter = sstTableCounter w + 1, minKey = [], maxKey = [],
      sizeInBytes = 0, sparseKeys = []\<rparr>"
  obtain err table1 w2 where
    itf: "InitTableFiles (w\<lparr>sstTableCounter := sstTableCounter w + 1\<rparr>) table directory
            = (err, table1, w2)"
    by (metis prod_cases3)
  from itf have "sparseKeys table1 = []"
    by (simp add: InitTableFiles_sparseKeys table_def)
  moreover from assms itf have "writeEntriesToSST P es table1 = Inr t"
    by (simp add: InitSSTableOnDisk_def Let_def table_def)
  ultimately show ?thesis by blast
qed


text \<open>Setting bits keeps the length of the bit array, its declared size and \<open>k\<close>.\<close>

lemma fold_set_bits_length:
  "length (fold (\<lambda>p bits. bits[p := True]) ps bits) = length bits"
  by (induction ps arbitrary: bits) auto

lemma set_bit_nth:
  "q < length bits \<Longrightarrow> bits[a := True] ! q \<longleftrightarrow> a = q \<or> bits ! q"
  by (cases "a = q") simp_all

lemma fold_set_bits_nth:
  "q < length bits \<Longrightarrow>
     fold (\<lambda>p bits. bits[p := True]) ps bits ! q \<longleftrightarrow> q \<in> set ps \<or> bits ! q"
  by (induction ps arbitrary: bits) (auto simp: set_bit_nth)

lemma Add_fields:
  "length (bitSet (Add P bf s)) = length (bitSet bf)"
  "bitSetSize (Add P bf s) = bitSetSize bf"
  "numHashFuncs (Add P bf s) = numHashFuncs bf"
  by (simp_all add: Add_def fold_set_bits_length)

lemma fold_Add_fields:
  "length (bitSet (fold (\<lambda>r b. Add P b (Key r)) es bf)) = length (bitSet bf)"
  "bitSetSize (fold (\<lambda>r b. Add P b (Key r)) es bf) = bitSetSize bf"
  "numHashFuncs (fold (\<lambda>r b. Add P b (Key r)) es bf) = numHashFuncs bf"
  by (induction es arbitrary: bf) (simp_all add: Add_fields)

lemma populateBloomFilter_Inr:
  assumes "length (bitSet bf) = unat (bitSetSize bf)"
  shows "\<exists>bf'. populateBloomFilter P es bf = Inr bf'
           \<and> bitSet bf' = bitSet (fold (\<lambda>r b. Add P b (Key r)) es bf)
           \<and> numHashFuncs bf' = numHashFuncs bf"
  using assms
  by (simp add: populateBloomFilter_def Let_def fold_Add_fields WriteToFile_def)

lemma InitBloomFilterAttrs_length:
  "length (bitSet (InitBloomFilterAttrs P bf n)) = unat (bitSetSize (InitBloomFilterAttrs P bf n))"
  by (simp add: InitBloomFilterAttrs_def)




section \<open>The write path: bloom filter\<close>

lemma bitPositions_Add:
  "bitPositions P (Add P bf s') s = bitPositions P bf s"
  by (simp add: bitPositions_def Add_fields)

lemma MightContain_Add_same:
  assumes "0 < length (bitSet bf)"
  shows "MightContain P (Add P bf s) s"
proof -
  have "\<forall>p \<in> set (bitPositions P bf s). p < length (bitSet bf)"
    using assms by (auto simp: bitPositions_def)
  then show ?thesis
    unfolding MightContain_def bitPositions_Add
    by (auto simp: list_all_iff Add_def fold_set_bits_length fold_set_bits_nth)
qed

lemma MightContain_Add_mono:
  assumes "MightContain P bf s"
  shows "MightContain P (Add P bf s') s"
  using assms
  unfolding MightContain_def bitPositions_Add
  by (auto simp: list_all_iff Add_def fold_set_bits_length fold_set_bits_nth)

lemma MightContain_fold_mono:
  "MightContain P bf s \<Longrightarrow> MightContain P (fold (\<lambda>r b. Add P b (Key r)) es bf) s"
  by (induction es arbitrary: bf) (auto intro: MightContain_Add_mono)

lemma MightContain_fold_Add:
  assumes "e \<in> set es" and "0 < length (bitSet bf)"
  shows "MightContain P (fold (\<lambda>r b. Add P b (Key r)) es bf) (Key e)"
  using assms
proof (induction es arbitrary: bf)
  case Nil
  then show ?case by simp
next
  case (Cons x es)
  show ?case
  proof (cases "e = x")
    case True
    then show ?thesis
      using Cons.prems(2) by (simp add: MightContain_fold_mono MightContain_Add_same)
  next
    case False
    with Cons.prems have "e \<in> set es" by simp
    then show ?thesis
      using Cons.IH [of "Add P bf (Key x)"] Cons.prems(2) by (simp add: Add_fields)
  qed
qed

lemma MightContain_cong:
  "bitSet bf' = bitSet bf \<Longrightarrow> numHashFuncs bf' = numHashFuncs bf \<Longrightarrow>
     MightContain P bf' s = MightContain P bf s"
  by (simp add: MightContain_def bitPositions_def)

text \<open>
  Claim C7. For every batch from which the build path makes a table, every key of the
  batch is added to the table's bloom filter (its bit array is the one that adding
  the keys of the batch, in order, gives), and for every key of the batch
  \<^verbatim>\<open>MightContain\<close> is true on the table's filter, which is the test of the membership
  step of \<^verbatim>\<open>Get\<close>: a key of the batch is never rejected there. The bit array must not
  be empty.
\<close>

theorem bloom_no_false_negatives:
  assumes "InitSSTableOnDisk P w directory es = (Inr t, w')"
    and "0 < unat (bitSetSizeFor P (word_of_nat (length es)))"
    and "e \<in> set es"
  shows "\<exists>bf0 bf. bloomFilter t = Some bf
    \<and> bitSet bf = bitSet (fold (\<lambda>r b. Add P b (Key r)) es
                            (InitBloomFilterAttrs P bf0 (word_of_nat (length es))))
    \<and> MightContain P bf (Key e)"
proof -
  from InitSSTableOnDisk_Inr [OF assms(1)] obtain table1 where
    wr: "writeEntriesToSST P es table1 = Inr t" by blast
  from writeEntriesToSST_Inr(5) [OF wr] obtain bf0 bf where
    pop: "populateBloomFilter P es (InitBloomFilterAttrs P bf0 (word_of_nat (length es))) = Inr bf"
    and bl: "bloomFilter t = Some bf"
    by blast
  let ?init = "InitBloomFilterAttrs P bf0 (word_of_nat (length es))"
  from populateBloomFilter_Inr [OF InitBloomFilterAttrs_length, of P es P bf0 "word_of_nat (length es)"] pop
  have bits: "bitSet bf = bitSet (fold (\<lambda>r b. Add P b (Key r)) es ?init)"
    and nh: "numHashFuncs bf = numHashFuncs ?init"
    by auto
  have pos: "0 < length (bitSet ?init)"
    using assms(2) by (simp add: InitBloomFilterAttrs_def)
  have "MightContain P (fold (\<lambda>r b. Add P b (Key r)) es ?init) (Key e)"
    by (rule MightContain_fold_Add [OF assms(3) pos])
  then have "MightContain P bf (Key e)"
    using MightContain_cong [of bf "fold (\<lambda>r b. Add P b (Key r)) es ?init" P "Key e"]
    by (simp add: bits nh fold_Add_fields)
  with bl bits show ?thesis by blast
qed

theorem bloom_no_false_negatives_witness:
  "InitSSTableOnDisk exParams exWorld ''storage'' exBatch =
     (Inr exTable,
      exWorld\<lparr>sstTableCounter := 1,
              openHandles := [''../storage/sst_1.data'', ''../storage/sst_1.index'',
                              ''../storage/sst_1.bloom'']\<rparr>)
   \<and> 0 < unat (bitSetSizeFor exParams (word_of_nat (length exBatch)))
   \<and> exRecord ''c'' ''3'' \<in> set exBatch
   \<and> (\<exists>bf. bloomFilter exTable = Some bf \<and> MightContain exParams bf (Key (exRecord ''c'' ''3'')))"
proof -
  have h2: "0 < unat (bitSetSizeFor exParams (word_of_nat (length exBatch)))"
    by (simp add: exParams_def)
  have h3: "exRecord ''c'' ''3'' \<in> set exBatch"
    by (simp add: exBatch_def)
  from bloom_no_false_negatives [OF exTable_built h2 h3]
  have "\<exists>bf. bloomFilter exTable = Some bf \<and> MightContain exParams bf (Key (exRecord ''c'' ''3''))"
    by blast
  with exTable_built h2 h3 show ?thesis by blast
qed

section \<open>File creation failures\<close>

text \<open>
  Claim C5. If one of the three file creations fails, the handles opened so far are
  closed and the error should reach the caller of the build. \<^verbatim>\<open>InitTableFiles\<close> does
  close the handles and return the error, but \<^verbatim>\<open>InitSSTableOnDisk\<close> drops that result
  and runs the write path on the table whose file fields are still nil. Here the
  creation of the index file fails: \<^verbatim>\<open>InitTableFiles\<close> returns the wrapped error with
  no handle left open; the build itself goes on into \<^verbatim>\<open>writeEntriesToSST\<close>, where
  the nil bloom filter is dereferenced, and gives its caller no error value.
\<close>

theorem build_drops_creation_error:
  "InitTableFiles
     (exWorld\<lparr>sstTableCounter := 1, createFails := [''../storage/sst_1.index'']\<rparr>)
     \<lparr>dataFile = None, indexFile = None, bloomFilter = None, sstCounter = 1,
      minKey = [], maxKey = [], sizeInBytes = 0, sparseKeys = []\<rparr> ''storage''
   = (Some (Wrapped ''failed to create index file'' (ErrCreate ''../storage/sst_1.index'')),
      \<lparr>dataFile = None, indexFile = None, bloomFilter = None, sstCounter = 1,
       minKey = [], maxKey = [], sizeInBytes = 0, sparseKeys = []\<rparr>,
      exWorld\<lparr>sstTableCounter := 1, createFails := [''../storage/sst_1.index'']\<rparr>)
   \<and> InitSSTableOnDisk exParams (exWorld\<lparr>createFails := [''../storage/sst_1.index'']\<rparr>)
         ''storage'' exBatch
   = (Inl NilDereference,
      exWorld\<lparr>sstTableCounter := 1, createFails := [''../storage/sst_1.index'']\<rparr>)"
  by code_simp

text \<open>
  Whatever \<^verbatim>\<open>InitTableFiles\<close> returns, the build is the write path on the table that
  \<^verbatim>\<open>InitTableFiles\<close> leaves.
\<close>

lemma InitSSTableOnDisk_ignores_error:
  assumes "InitTableFiles (w\<lparr>sstTableCounter := sstTableCounter w + 1\<rparr>)
             \<lparr>dataFile = None, indexFile = None, bloomFilter = None,
              sstCounter = sstTableCounter w + 1, minKey = [], maxKey = [],
              sizeInBytes = 0, sparseKeys = []\<rparr> directory = (err, table1, w2)"
  shows "InitSSTableOnDisk P w directory es = (writeEntriesToSST P es table1, w2)"
  using assms by (simp add: InitSSTableOnDisk_def Let_def)

section \<open>The scan loop\<close>

lemma scanLoop_Return:
  "scanBody f targetKey currOffset = Return res f' \<Longrightarrow>
     scanLoop f targetKey currOffset False None = Some (res, f')"
  by (subst scanLoop.simps) simp

lemma scanLoop_Continue:
  "scanBody f targetKey currOffset = Continue off' f' \<Longrightarrow>
     scanLoop f targetKey currOffset False None = scanLoop f' targetKey off' False None"
  by (subst scanLoop.simps) simp

lemma scanAt_scanLoop:
  "scanAt n f targetKey currOffset = Some (f', off') \<Longrightarrow>
     scanLoop f targetKey currOffset False None = scanLoop f' targetKey off' False None"
proof (induction n arbitrary: f currOffset)
  case 0
  then show ?case by simp
next
  case (Suc n)
  then show ?case
    by (auto simp: scanLoop_Continue split: scan_step.splits)
qed

text \<open>
  The statement after the loop is dead code: the guard of the loop is true whenever
  it is tested, so \<open>ErrKeyNotFound\<close> is never returned.
\<close>

lemma scanBody_not_ErrKeyNotFound:
  "scanBody f targetKey currOffset = Return res f' \<Longrightarrow> res \<noteq> Returned v (Some ErrKeyNotFound)"
  by (auto simp: scanBody_def scanRead_def Let_def
           split: prod.splits read_result.splits sum.splits if_splits)

lemma scanLoop_not_ErrKeyNotFound:
  assumes "scanLoop f targetKey currOffset keyFound eofErr = Some (res, f')"
    and "keyFound = False \<or> eofErr = None"
  shows "res \<noteq> Returned v (Some ErrKeyNotFound)"
proof -
  have "(keyFound = False \<or> eofErr = None) \<longrightarrow> fst (res, f') \<noteq> Returned v (Some ErrKeyNotFound)"
    using assms(1)
  proof (induction rule: scanLoop.raw_induct [rotated, consumes 1])
    case (1 scanLoop' f targetKey currOffset keyFound eofErr r)
    then show ?case
      by (auto split: if_splits scan_step.splits dest: scanBody_not_ErrKeyNotFound)
  qed
  with assms(2) show ?thesis by simp
qed

lemma Get_not_ErrKeyNotFound:
  assumes "Get P sst targetKey = Some (res, sst')"
  shows "res \<noteq> Returned v (Some ErrKeyNotFound)"
  using assms
  by (auto simp: Get_def Let_def
           split: if_splits option.splits sum.splits
           dest: scanLoop_not_ErrKeyNotFound)

text \<open>
  Claim C6. For a key that passes the range and bloom checks, when the scan loop
  reaches the end of the file on a header read before a matching key, \<^verbatim>\<open>Get\<close> should
  end with the not-found outcome. The code returns the error of the read itself,
  \<^verbatim>\<open>io.EOF\<close>, from inside the loop. Here the data file of the example table is empty
  and the key is a.
\<close>

theorem Get_at_eof_returns_EOF:
  "\<not> (''a'' < minKey exTable \<or> ''a'' > maxKey exTable)
   \<and> MightContain exParams exBloom ''a''
   \<and> scanRead (Seek (exData\<lparr>contents := []\<rparr>) 0) 0
       = Inl (Returned [] (Some EOF),
              exData\<lparr>contents := [], pos := 0, iolog := [OpWrite 57, OpSeek 0, OpRead 17]\<rparr>)
   \<and> map_option fst (Get exParams (exTable\<lparr>dataFile := Some (exData\<lparr>contents := []\<rparr>)\<rparr>) ''a'')
       = Some (Returned [] (Some EOF))"
  by code_simp

text \<open>The same for every table: an end of file on a header read ends \<^verbatim>\<open>Get\<close> with it.\<close>

lemma scanLoop_header_EOF:
  assumes "scanAt n f targetKey currOffset = Some (f', off')"
    and "fst (ReadFull f' 17) = ReadEOF"
  shows "scanLoop f targetKey currOffset False None
           = Some (Returned [] (Some EOF), snd (ReadFull f' 17))"
proof -
  have "scanBody f' targetKey off' = Return (Returned [] (Some EOF)) (snd (ReadFull f' 17))"
    using assms(2) by (auto simp: scanBody_def scanRead_def split: prod.splits)
  then show ?thesis
    using scanAt_scanLoop [OF assms(1)] by (simp add: scanLoop_Return)
qed

text \<open>
  Claim C1. For a key that passes the range and bloom checks, when a pass of the scan
  loop decodes a record whose key is strictly greater than the target key, \<^verbatim>\<open>Get\<close>
  stops in that pass: the data file is left as the reads of that record left it. What
  it returns is the empty value with \<open>ErrKeyNotWithinTable\<close>, the error of the range
  and bloom rejections, and not \<open>ErrKeyNotFound\<close>.
\<close>

theorem Get_overshoot:
  assumes "\<not> (targetKey < minKey sst \<or> targetKey > maxKey sst)"
    and "bloomFilter sst = Some bf"
    and "MightContain P bf targetKey"
    and "getCandidateByteOffsetIndex sst targetKey = Inr i"
    and "dataFile sst = Some f"
    and "scanAt n (Seek f (byteOffset (sparseKeys sst ! nat i))) targetKey
           (byteOffset (sparseKeys sst ! nat i)) = Some (f', off')"
    and "scanRead f' off' = Inr (r, off1, f'')"
    and "Key r > targetKey"
  shows "Get P sst targetKey
           = Some (Returned [] (Some ErrKeyNotWithinTable), sst\<lparr>dataFile := Some f''\<rparr>)"
proof -
  have inb: "0 \<le> i \<and> i < int (length (sparseKeys sst))"
    using assms(4) unfolding getCandidateByteOffsetIndex_def
    by (rule candidateLoop_Inr_in_bounds)
  have "scanBody f' targetKey off' = Return (Returned [] (Some ErrKeyNotWithinTable)) f''"
    using assms(7,8) by (auto simp: scanBody_def)
  then have "scanLoop f' targetKey off' False None
      = Some (Returned [] (Some ErrKeyNotWithinTable), f'')"
    by (rule scanLoop_Return)
  with scanAt_scanLoop [OF assms(6)]
  have "scanLoop (Seek f (byteOffset (sparseKeys sst ! nat i))) targetKey
          (byteOffset (sparseKeys sst ! nat i)) False None
        = Some (Returned [] (Some ErrKeyNotWithinTable), f'')"
    by simp
  with assms(1-5) inb show ?thesis
    by (simp add: Get_def Let_def)
qed

theorem Get_overshoot_witness:
  "\<not> (''b'' < minKey exTable \<or> ''b'' > maxKey exTable)
   \<and> bloomFilter exTable = Some exBloom
   \<and> MightContain exParams exBloom ''b''
   \<and> getCandidateByteOffsetIndex exTable ''b'' = Inr 0
   \<and> dataFile exTable = Some exData
   \<and> scanAt 1 (Seek exData 0) ''b'' 0
       = Some (exData\<lparr>pos := 19,
                 iolog := [OpWrite 57, OpSeek 0, OpRead 17, OpSeek 17, OpRead 2, OpSeek 19]\<rparr>, 19)
   \<and> scanRead (exData\<lparr>pos := 19,
                 iolog := [OpWrite 57, OpSeek 0, OpRead 17, OpSeek 17, OpRead 2, OpSeek 19]\<rparr>) 19
       = Inr (exRecord ''c'' ''3'', 36,
              exData\<lparr>pos := 38,
                iolog := [OpWrite 57, OpSeek 0, OpRead 17, OpSeek 17, OpRead 2, OpSeek 19,
                          OpRead 17, OpSeek 36, OpRead 2]\<rparr>)
   \<and> Key (exRecord ''c'' ''3'') > ''b''
   \<and> Get exParams exTable ''b''
       = Some (Returned [] (Some ErrKeyNotWithinTable),
               exTable\<lparr>dataFile := Some (exData\<lparr>pos := 38,
                 iolog := [OpWrite 57, OpSeek 0, OpRead 17, OpSeek 17, OpRead 2, OpSeek 19,
                           OpRead 17, OpSeek 36, OpRead 2]\<rparr>)\<rparr>)"
proof -
  let ?f1 = "exData\<lparr>pos := 19,
                 iolog := [OpWrite 57, OpSeek 0, OpRead 17, OpSeek 17, OpRead 2, OpSeek 19]\<rparr>"
  let ?f2 = "exData\<lparr>pos := 38,
                iolog := [OpWrite 57, OpSeek 0, OpRead 17, OpSeek 17, OpRead 2, OpSeek 19,
                          OpRead 17, OpSeek 36, OpRead 2]\<rparr>"
  have h1: "\<not> (''b'' < minKey exTable \<or> ''b'' > maxKey exTable)"
    by (simp add: exTable_def)
  have h2: "bloomFilter exTable = Some exBloom"
    by (simp add: exTable_def)
  have h3: "MightContain exParams exBloom ''b''"
    by code_simp
  have h4: "getCandidateByteOffsetIndex exTable ''b'' = Inr 0"
    by code_simp
  have h7: "dataFile exTable = Some exData"
    by (simp add: exTable_def)
  have off: "byteOffset (sparseKeys exTable ! nat 0) = 0"
    by (simp add: exTable_def)
  have h8: "scanAt 1 (Seek exData 0) ''b'' 0 = Some (?f1, 19)"
    by code_simp
  then have h8': "scanAt 1 (Seek exData (byteOffset (sparseKeys exTable ! nat 0))) ''b''
           (byteOffset (sparseKeys exTable ! nat 0)) = Some (?f1, 19)"
    by (simp only: off)
  have h9: "scanRead ?f1 19 = Inr (exRecord ''c'' ''3'', 36, ?f2)"
    by code_simp
  have h10: "Key (exRecord ''c'' ''3'') > ''b''"
    by (simp add: exRecord_def)
  note get = Get_overshoot [OF h1 h2 h3 h4 h7 h8' h9 h10]
  show ?thesis
    by (intro conjI h1 h2 h3 h4 h7 h8 h9 h10 get)
qed

text \<open>
  The claim as it was stated, with the not-found outcome, fails on the example table:
  the key b passes the range check and the bloom filter, the second pass of the scan
  decodes the record of c, and \<^verbatim>\<open>Get\<close> returns \<open>ErrKeyNotWithinTable\<close>, the error that it
  also returns for the key f, which is out of range; the whole result is the one for
  the key b0, which the bloom filter rejects.
\<close>

theorem Get_overshoot_counterexample:
  "\<not> (''b'' < minKey exTable \<or> ''b'' > maxKey exTable)
   \<and> MightContain exParams exBloom ''b''
   \<and> scanAt 1 (Seek exData 0) ''b'' 0
       = Some (exData\<lparr>pos := 19,
                 iolog := [OpWrite 57, OpSeek 0, OpRead 17, OpSeek 17, OpRead 2, OpSeek 19]\<rparr>, 19)
   \<and> scanRead (exData\<lparr>pos := 19,
                 iolog := [OpWrite 57, OpSeek 0, OpRead 17, OpSeek 17, OpRead 2, OpSeek 19]\<rparr>) 19
       = Inr (exRecord ''c'' ''3'', 36,
              exData\<lparr>pos := 38,
                iolog := [OpWrite 57, OpSeek 0, OpRead 17, OpSeek 17, OpRead 2, OpSeek 19,
                          OpRead 17, OpSeek 36, OpRead 2]\<rparr>)
   \<and> Key (exRecord ''c'' ''3'') > ''b''
   \<and> map_option fst (Get exParams exTable ''b'') = Some (Returned [] (Some ErrKeyNotWithinTable))
   \<and> map_option fst (Get exParams exTable ''b'') \<noteq> Some (Returned [] (Some ErrKeyNotFound))
   \<and> map_option fst (Get exParams exTable ''f'') = Some (Returned ''<!>'' (Some ErrKeyNotWithinTable))
   \<and> \<not> MightContain exParams exBloom ''b0''
   \<and> map_option fst (Get exParams exTable ''b0'') = map_option fst (Get exParams exTable ''b'')"
  by code_simp

section \<open>The codec on its own encodings\<close>

lemma un32_le32:
  "un32 (ucast w) (ucast (drop_bit 8 w)) (ucast (drop_bit 16 w)) (ucast (drop_bit 24 w)) = w"
proof (rule bit_word_eqI)
  fix n assume n: "n < LENGTH(32)"
  consider "n < 8" | "8 \<le> n" "n < 16" | "16 \<le> n" "n < 24" | "24 \<le> n" "n < 32"
    using n by fastforce
  then show "bit (un32 (ucast w) (ucast (drop_bit 8 w)) (ucast (drop_bit 16 w))
                (ucast (drop_bit 24 w))) n = bit w n"
    by cases (auto simp: un32_def bit_simps)
qed

lemma length_le32 [simp]: "length (le32 w) = 4"
  by (simp add: le32_def)

lemma length_EncodeHeader [simp]: "length (EncodeHeader h) = 17"
  by (simp add: EncodeHeader_def)

lemma DecodeHeader_EncodeHeader:
  "DecodeHeader (EncodeHeader h @ rest) = Inr h"
  by (simp add: DecodeHeader_def EncodeHeader_def le32_def un32_le32 nth_append)

lemma string_of_bytes_of_string [simp]:
  "string_of_bytes (bytes_of_string s) = s"
proof -
  have "char_of (unat (word_of_nat (of_char c) :: byte)) = c" for c :: char
    by (simp add: unat_of_nat)
  then show ?thesis
    by (simp add: string_of_bytes_def bytes_of_string_def comp_def)
qed

lemma length_bytes_of_string [simp]: "length (bytes_of_string s) = length s"
  by (simp add: bytes_of_string_def)

lemma length_EncodeKV:
  "length (EncodeKV r) = 17 + length (Key r) + length (Value r)"
  by (simp add: EncodeKV_def)

lemma DecodeKV_EncodeKV:
  assumes "validRecord r"
  shows "DecodeKV (EncodeKV r) =
           Inr (r\<lparr>RecordSize := headerSize + KeySize (Header r) + ValueSize (Header r)\<rparr>)"
  using assms
  by (simp add: DecodeKV_def EncodeKV_def DecodeHeader_EncodeHeader validRecord_def Let_def)

section \<open>The scan loop on a well-formed data file\<close>

lemma dataOf_take_Suc:
  "j < length rs \<Longrightarrow> dataOf (take (Suc j) rs) = dataOf (take j rs) @ EncodeKV (rs ! j)"
  by (simp add: dataOf_def take_Suc_conv_app_nth)

lemma dataOf_split:
  "j < length rs \<Longrightarrow>
     dataOf rs = dataOf (take j rs) @ EncodeKV (rs ! j) @ dataOf (drop (Suc j) rs)"
proof -
  assume "j < length rs"
  then have "rs = take j rs @ rs ! j # drop (Suc j) rs"
    by (rule id_take_nth_drop)
  then have "dataOf rs = dataOf (take j rs @ rs ! j # drop (Suc j) rs)"
    by simp
  then show ?thesis
    by (simp add: dataOf_def)
qed

lemma bytes_of_string_Nil_iff [simp]: "bytes_of_string s = [] \<longleftrightarrow> s = []"
  by (simp add: bytes_of_string_def)

lemma EncodeHeader_not_Nil [simp]: "EncodeHeader h \<noteq> []"
  by (simp add: EncodeHeader_def le32_def)

lemma EncodeKV_split:
  "EncodeKV r = EncodeHeader (Header r) @ (bytes_of_string (Key r) @ bytes_of_string (Value r))"
  by (simp add: EncodeKV_def)

lemma unat_offset:
  "n < 2 ^ 32 \<Longrightarrow> unat (word_of_nat n :: u32) = n"
  by (simp add: unat_of_nat)

lemma unat_offset_plus:
  "n + unat (k :: u32) < 2 ^ 32 \<Longrightarrow> unat (word_of_nat n + k :: u32) = n + unat k"
  by (simp add: unat_word_ariths unat_of_nat)

lemma scanRead_record:
  assumes c: "contents f = pre @ EncodeKV r @ post"
    and p: "pos f = length pre"
    and v: "validRecord r"
    and b1: "length pre + 17 < 2 ^ 32"
    and b2: "length (Key r) + length (Value r) < 2 ^ 32"
  shows "\<exists>f3. scanRead f (word_of_nat (length pre))
           = Inr (r\<lparr>RecordSize := headerSize + KeySize (Header r) + ValueSize (Header r)\<rparr>,
                  word_of_nat (length pre) + headerSize, f3)
         \<and> contents f3 = contents f
         \<and> pos f3 = length pre + length (EncodeKV r)"
proof -
  let ?h = "Header r"
  let ?body = "bytes_of_string (Key r) @ bytes_of_string (Value r)"
  let ?n = "length (Key r) + length (Value r)"
  define f1 where "f1 = f\<lparr>iolog := iolog f @ [OpRead 17], pos := pos f + 17\<rparr>"
  define f2 where "f2 = Seek f1 (word_of_nat (length pre) + headerSize)"
  have ks: "unat (KeySize ?h) = length (Key r)" and vs: "unat (ValueSize ?h) = length (Value r)"
    using v by (simp_all add: validRecord_def)
  have n: "unat (KeySize ?h + ValueSize ?h) = ?n"
    using b2 ks vs by (simp add: unat_word_ariths)
  have avail: "drop (pos f) (contents f) = EncodeHeader ?h @ ?body @ post"
    by (simp add: c p EncodeKV_split)
  have r1: "ReadFull f 17 = (ReadOK (EncodeHeader ?h), f1)"
    by (simp add: ReadFull_def avail Let_def f1_def)
  have pos2: "pos f2 = length pre + 17"
    using b1 by (simp add: f2_def Seek_def headerSize_def unat_offset_plus)
  have c2: "contents f2 = contents f"
    by (simp add: f2_def f1_def Seek_def)
  have avail2: "drop (pos f2) (contents f2) = ?body @ post"
    by (simp add: pos2 c2 c EncodeKV_split)
  have "\<exists>f3. ReadFull f2 ?n = (ReadOK ?body, f3) \<and> contents f3 = contents f
          \<and> pos f3 = length pre + 17 + ?n"
  proof (cases "?n = 0")
    case True
    then show ?thesis
      by (simp add: ReadFull_def pos2 c2)
  next
    case False
    then have "?body \<noteq> []"
      by auto
    with False show ?thesis
      unfolding ReadFull_def Let_def avail2
      by (auto simp: pos2 c2)
  qed
  then obtain f3 where r2: "ReadFull f2 ?n = (ReadOK ?body, f3)"
    and c3: "contents f3 = contents f" and p3: "pos f3 = length pre + 17 + ?n"
    by blast
  have dec: "DecodeKV (EncodeHeader ?h @ ?body) =
      Inr (r\<lparr>RecordSize := headerSize + KeySize ?h + ValueSize ?h\<rparr>)"
    using DecodeKV_EncodeKV [OF v] by (simp add: EncodeKV_split)
  have "scanRead f (word_of_nat (length pre))
      = Inr (r\<lparr>RecordSize := headerSize + KeySize ?h + ValueSize ?h\<rparr>,
             word_of_nat (length pre) + headerSize, f3)"
    using DecodeHeader_EncodeHeader [of ?h "[]"]
    by (simp add: scanRead_def r1 Let_def f2_def [symmetric] n r2 dec)
  with c3 p3 show ?thesis
    by (auto simp: length_EncodeKV)
qed

lemma dataOf_take_le:
  "length (dataOf (take k rs)) \<le> length (dataOf rs)"
proof -
  have "dataOf (take k rs @ drop k rs) = dataOf (take k rs) @ dataOf (drop k rs)"
    by (simp add: dataOf_def del: append_take_drop_id)
  then have "dataOf rs = dataOf (take k rs) @ dataOf (drop k rs)"
    by simp
  then show ?thesis by simp
qed

lemma scanBody_boundary:
  assumes v: "list_all validRecord rs" and small: "length (dataOf rs) < 2 ^ 32"
    and k: "k < length rs"
    and c: "contents f = dataOf rs"
    and p: "pos f = length (dataOf (take k rs))"
  shows "(\<exists>res f'. scanBody f targetKey (word_of_nat (pos f)) = Return res f')
       \<or> (\<exists>f'. scanBody f targetKey (word_of_nat (pos f))
                  = Continue (word_of_nat (length (dataOf (take (Suc k) rs)))) f'
              \<and> contents f' = dataOf rs
              \<and> pos f' = length (dataOf (take (Suc k) rs)))"
proof -
  let ?r = "rs ! k"
  let ?pre = "dataOf (take k rs)"
  let ?h = "Header ?r"
  have vr: "validRecord ?r"
    using v k by (simp add: list_all_length)
  have c': "contents f = ?pre @ EncodeKV ?r @ dataOf (drop (Suc k) rs)"
    using dataOf_split [OF k] c by simp
  have next_le: "length (dataOf (take (Suc k) rs)) < 2 ^ 32"
    using dataOf_take_le [of "Suc k" rs] small by simp
  then have b: "length ?pre + length (EncodeKV ?r) < 2 ^ 32"
    by (simp add: dataOf_take_Suc [OF k])
  from b have b1: "length ?pre + 17 < 2 ^ 32"
    and b2: "length (Key ?r) + length (Value ?r) < 2 ^ 32"
    by (simp_all add: length_EncodeKV)
  from scanRead_record [OF c' p vr b1 b2] obtain f3 where
    rd: "scanRead f (word_of_nat (length ?pre))
           = Inr (?r\<lparr>RecordSize := headerSize + KeySize ?h + ValueSize ?h\<rparr>,
                  word_of_nat (length ?pre) + headerSize, f3)"
    and c3: "contents f3 = contents f"
    by blast
  have ks: "KeySize ?h = word_of_nat (length (Key ?r))"
    and vs: "ValueSize ?h = word_of_nat (length (Value ?r))"
    using vr by (auto simp: validRecord_def dest: sym)
  have off2: "word_of_nat (length ?pre) + headerSize + (KeySize ?h + ValueSize ?h)
      = (word_of_nat (length (dataOf (take (Suc k) rs))) :: u32)"
    by (simp add: dataOf_take_Suc [OF k] length_EncodeKV ks vs headerSize_def)
  show ?thesis
    unfolding p scanBody_def rd
    using next_le c3 c
    by (simp add: Let_def off2 Seek_def unat_offset)
qed

lemma scanBody_end:
  assumes "contents f = dataOf rs" and "pos f = length (dataOf rs)"
  shows "\<exists>f'. scanBody f targetKey currOffset = Return (Returned [] (Some EOF)) f'"
  using assms by (simp add: scanBody_def scanRead_def ReadFull_def Let_def)

lemma scanLoop_ends_at_boundary:
  assumes "list_all validRecord rs" and "length (dataOf rs) < 2 ^ 32"
    and "k \<le> length rs"
    and "contents f = dataOf rs"
    and "pos f = length (dataOf (take k rs))"
  shows "\<exists>res f'. scanLoop f targetKey (word_of_nat (pos f)) False None = Some (res, f')"
  using assms(3-5)
proof (induction "length rs - k" arbitrary: k f)
  case 0
  then have "pos f = length (dataOf rs)" by simp
  from scanBody_end [OF "0.prems"(2) this, of targetKey "word_of_nat (pos f)"]
  obtain f' where
    "scanBody f targetKey (word_of_nat (pos f)) = Return (Returned [] (Some EOF)) f'"
    by blast
  from scanLoop_Return [OF this] show ?case
    by blast
next
  case (Suc m)
  then have k: "k < length rs" by simp
  from scanBody_boundary [OF assms(1,2) k Suc.prems(2,3), where targetKey = targetKey]
  show ?case
  proof (elim disjE exE conjE)
    fix res f'
    assume "scanBody f targetKey (word_of_nat (pos f)) = Return res f'"
    then show ?thesis
      by (auto dest: scanLoop_Return)
  next
    fix f'
    assume step: "scanBody f targetKey (word_of_nat (pos f))
        = Continue (word_of_nat (length (dataOf (take (Suc k) rs)))) f'"
      and c': "contents f' = dataOf rs"
      and p': "pos f' = length (dataOf (take (Suc k) rs))"
    have "\<exists>res f''. scanLoop f' targetKey (word_of_nat (pos f')) False None = Some (res, f'')"
      using Suc.hyps(1) [of "Suc k" f'] Suc.hyps(2) k c' p' by simp
    then show ?thesis
      using scanLoop_Continue [OF step] by (simp add: p')
  qed
qed

lemma scanAt_boundary:
  assumes "list_all validRecord rs" and "length (dataOf rs) < 2 ^ 32"
    and "k \<le> length rs"
    and "contents f = dataOf rs"
    and "pos f = length (dataOf (take k rs))"
    and "scanAt n f targetKey (word_of_nat (pos f)) = Some (f1, off1)"
  shows "\<exists>k'. k \<le> k' \<and> k' \<le> length rs \<and> contents f1 = dataOf rs
           \<and> pos f1 = length (dataOf (take k' rs)) \<and> off1 = word_of_nat (pos f1)"
  using assms(3-6)
proof (induction n arbitrary: k f)
  case 0
  then show ?case by auto
next
  case (Suc n)
  from Suc.prems(4) obtain off' f' where
    step: "scanBody f targetKey (word_of_nat (pos f)) = Continue off' f'"
    and rest: "scanAt n f' targetKey off' = Some (f1, off1)"
    by (auto split: scan_step.splits)
  have k: "k < length rs"
  proof (rule ccontr)
    assume "\<not> k < length rs"
    with Suc.prems(1,3) have "pos f = length (dataOf rs)" by simp
    from scanBody_end [OF Suc.prems(2) this, of targetKey "word_of_nat (pos f)"] step
    show False by auto
  qed
  from scanBody_boundary [OF assms(1,2) k Suc.prems(2,3), where targetKey = targetKey] step
  have off': "off' = word_of_nat (length (dataOf (take (Suc k) rs)))"
    and c': "contents f' = dataOf rs"
    and p': "pos f' = length (dataOf (take (Suc k) rs))"
    by auto
  from Suc.IH [of "Suc k" f'] k c' p' rest off'
  obtain k' where "Suc k \<le> k'" "k' \<le> length rs" "contents f1 = dataOf rs"
    "pos f1 = length (dataOf (take k' rs))" "off1 = word_of_nat (pos f1)"
    by auto
  then show ?case
    by (intro exI [of _ k']) auto
qed

text \<open>
  Claim C8. The scan loop of \<^verbatim>\<open>Get\<close> was to end on every well-formed data file. It
  does so when the file is shorter than \<open>2 ^ 32\<close> bytes and the loop starts at the
  boundary of a record: on a well-formed data file (the concatenated encodings of
  records whose headers declare the lengths of their keys and values) of fewer than
  \<open>2 ^ 32\<close> bytes the scan loop, started at the boundary of a record, always ends. At
  every pass the offset is at most the length of the data file, and the pass either
  leaves \<^verbatim>\<open>Get\<close> (a match, an overshoot, the end of the file or an error) or goes on at
  a strictly greater offset that is still at most the length of the file and lies
  exactly one encoded record further.
\<close>

theorem scanLoop_terminates:
  assumes "wellFormedData rs (contents f)"
    and "length (contents f) < 2 ^ 32"
    and "j \<le> length rs"
    and "currOffset = word_of_nat (length (dataOf (take j rs)))"
  shows "(\<exists>res f'. scanLoop (Seek f currOffset) targetKey currOffset False None = Some (res, f'))
    \<and> (\<forall>n f1 off1.
          scanAt n (Seek f currOffset) targetKey currOffset = Some (f1, off1) \<longrightarrow>
          unat off1 \<le> length (contents f)
          \<and> (case scanBody f1 targetKey off1 of
                Return res f2 \<Rightarrow> True
              | Continue off2 f2 \<Rightarrow>
                  unat off1 < unat off2 \<and> unat off2 \<le> length (contents f)
                  \<and> (\<exists>k<length rs. unat off1 = length (dataOf (take k rs))
                         \<and> unat off2 = unat off1 + length (EncodeKV (rs ! k)))))"
proof -
  let ?f0 = "Seek f currOffset"
  from assms(1) have v: "list_all validRecord rs" and c: "contents f = dataOf rs"
    by (auto simp: wellFormedData_def)
  from assms(2) c have small: "length (dataOf rs) < 2 ^ 32"
    by simp
  have lt: "length (dataOf (take k rs)) < 2 ^ 32" for k
    using dataOf_take_le [of k rs] small by simp
  have c0: "contents ?f0 = dataOf rs"
    by (simp add: Seek_def c)
  have p0: "pos ?f0 = length (dataOf (take j rs))"
    using unat_offset [OF lt [of j]] by (simp add: Seek_def assms(4))
  have o0: "currOffset = word_of_nat (pos ?f0)"
    unfolding p0 by (rule assms(4))
  have ends: "\<exists>res f'. scanLoop ?f0 targetKey currOffset False None = Some (res, f')"
    using scanLoop_ends_at_boundary [OF v small assms(3) c0 p0, of targetKey]
    by (simp add: o0 [symmetric])
  have pass: "unat off1 \<le> length (contents f)
          \<and> (case scanBody f1 targetKey off1 of
                Return res f2 \<Rightarrow> True
              | Continue off2 f2 \<Rightarrow>
                  unat off1 < unat off2 \<and> unat off2 \<le> length (contents f)
                  \<and> (\<exists>k<length rs. unat off1 = length (dataOf (take k rs))
                         \<and> unat off2 = unat off1 + length (EncodeKV (rs ! k))))"
    if at: "scanAt n ?f0 targetKey currOffset = Some (f1, off1)" for n f1 off1
  proof -
    from at have "scanAt n ?f0 targetKey (word_of_nat (pos ?f0)) = Some (f1, off1)"
      by (simp add: o0 [symmetric])
    from scanAt_boundary [OF v small assms(3) c0 p0 this] obtain k where
      k: "k \<le> length rs" and c1: "contents f1 = dataOf rs"
      and p1: "pos f1 = length (dataOf (take k rs))" and o1: "off1 = word_of_nat (pos f1)"
      by blast
    have u1: "unat off1 = length (dataOf (take k rs))"
      using unat_offset [OF lt [of k]] by (simp add: o1 p1)
    have bound: "unat off1 \<le> length (contents f)"
      using dataOf_take_le [of k rs] by (simp add: u1 c)
    show ?thesis
    proof (cases "k = length rs")
      case True
      then have "pos f1 = length (dataOf rs)" by (simp add: p1)
      from scanBody_end [OF c1 this, of targetKey off1] bound show ?thesis
        by auto
    next
      case False
      with k have k': "k < length rs" by simp
      have u2: "unat (word_of_nat (length (dataOf (take (Suc k) rs))) :: u32)
          = unat off1 + length (EncodeKV (rs ! k))"
        using unat_offset [OF lt [of "Suc k"]] by (simp add: u1 dataOf_take_Suc [OF k'])
      have le2: "length (dataOf (take (Suc k) rs)) \<le> length (contents f)"
        using dataOf_take_le [of "Suc k" rs] by (simp add: c)
      from scanBody_boundary [OF v small k' c1 p1, where targetKey = targetKey]
      show ?thesis
      proof (elim disjE exE conjE)
        fix res f'
        assume "scanBody f1 targetKey (word_of_nat (pos f1)) = Return res f'"
        with bound show ?thesis
          by (simp add: o1)
      next
        fix f'
        assume "scanBody f1 targetKey (word_of_nat (pos f1))
            = Continue (word_of_nat (length (dataOf (take (Suc k) rs)))) f'"
        then have "scanBody f1 targetKey off1
            = Continue (word_of_nat (length (dataOf (take (Suc k) rs)))) f'"
          by (simp add: o1)
        moreover have "unat off1 < unat off1 + length (EncodeKV (rs ! k))"
          by (simp add: length_EncodeKV)
        moreover have "unat off1 + length (EncodeKV (rs ! k)) \<le> length (contents f)"
          using le2 by (simp add: u1 dataOf_take_Suc [OF k'])
        ultimately show ?thesis
          using bound k' u1 by (auto simp: u2)
      qed
    qed
  qed
  from ends pass show ?thesis by blast
qed

theorem scanLoop_terminates_witness:
  "wellFormedData exBatch (contents exData)
   \<and> length (contents exData) < 2 ^ 32
   \<and> (0::nat) \<le> length exBatch
   \<and> (0::u32) = word_of_nat (length (dataOf (take 0 exBatch)))
   \<and> (\<exists>res f'. scanLoop (Seek exData 0) ''e'' 0 False None = Some (res, f'))
   \<and> map_option snd (scanAt 1 (Seek exData 0) ''e'' 0) = Some 19
   \<and> unat (19::u32) \<le> length (contents exData)
   \<and> unat (19::u32) < unat (38::u32)
   \<and> unat (38::u32) \<le> length (contents exData)
   \<and> (\<exists>k<length exBatch. unat (19::u32) = length (dataOf (take k exBatch))
          \<and> unat (38::u32) = unat (19::u32) + length (EncodeKV (exBatch ! k)))"
proof -
  let ?f1 = "exData\<lparr>pos := 19,
                 iolog := [OpWrite 57, OpSeek 0, OpRead 17, OpSeek 17, OpRead 2, OpSeek 19]\<rparr>"
  let ?f2 = "exData\<lparr>pos := 38,
                iolog := [OpWrite 57, OpSeek 0, OpRead 17, OpSeek 17, OpRead 2, OpSeek 19,
                          OpRead 17, OpSeek 36, OpRead 2, OpSeek 38]\<rparr>"
  have h1: "wellFormedData exBatch (contents exData)"
  proof -
    have "list_all validRecord exBatch"
      by code_simp
    moreover have "contents exData = dataOf exBatch"
      by code_simp
    ultimately show ?thesis
      by (simp only: wellFormedData_def simp_thms)
  qed
  have hb: "length (contents exData) < 2 ^ 32"
    by (simp add: exData_def)
  have h2: "(0::nat) \<le> length exBatch"
    by simp
  have h3: "(0::u32) = word_of_nat (length (dataOf (take 0 exBatch)))"
    by (simp add: dataOf_def)
  note inst = scanLoop_terminates [OF h1 hb h2 h3, of "''e''"]
  from inst have ends: "\<exists>res f'. scanLoop (Seek exData 0) ''e'' 0 False None = Some (res, f')"
    by (rule conjunct1)
  have at: "scanAt 1 (Seek exData 0) ''e'' 0 = Some (?f1, 19)"
    by code_simp
  have body: "scanBody ?f1 ''e'' 19 = Continue 38 ?f2"
    by code_simp
  from inst at have "unat (19::u32) \<le> length (contents exData)
          \<and> (case scanBody ?f1 ''e'' 19 of
                Return res f2 \<Rightarrow> True
              | Continue off2 f2 \<Rightarrow>
                  unat (19::u32) < unat off2 \<and> unat off2 \<le> length (contents exData)
                  \<and> (\<exists>k<length exBatch. unat (19::u32) = length (dataOf (take k exBatch))
                         \<and> unat off2 = unat (19::u32) + length (EncodeKV (exBatch ! k))))"
    by blast
  then have pass: "unat (19::u32) \<le> length (contents exData)
      \<and> unat (19::u32) < unat (38::u32)
      \<and> unat (38::u32) \<le> length (contents exData)
      \<and> (\<exists>k<length exBatch. unat (19::u32) = length (dataOf (take k exBatch))
          \<and> unat (38::u32) = unat (19::u32) + length (EncodeKV (exBatch ! k)))"
    by (simp only: body scan_step.case)
  from at have at': "map_option snd (scanAt 1 (Seek exData 0) ''e'' 0) = Some 19"
    by simp
  show ?thesis
    by (intro conjI h1 hb h2 h3 ends at' pass [THEN conjunct1]
          pass [THEN conjunct2, THEN conjunct1]
          pass [THEN conjunct2, THEN conjunct2, THEN conjunct1]
          pass [THEN conjunct2, THEN conjunct2, THEN conjunct2])
qed

text \<open>
  \<^verbatim>\<open>Get\<close> starts the loop at a record boundary when the table was built from records
  whose \<^verbatim>\<open>RecordSize\<close> is the size of their encoding (header size + key size + value
  size): the sparse offsets are sums of these sizes. On such a table, with a data file
  of fewer than \<open>2 ^ 32\<close> bytes, \<^verbatim>\<open>Get\<close> returns for every key.
\<close>

lemma RecordSize_sum:
  assumes "list_all validRecord xs"
    and "list_all (\<lambda>e. RecordSize e = headerSize + KeySize (Header e) + ValueSize (Header e)) xs"
  shows "sum_list (map RecordSize xs) = word_of_nat (length (dataOf xs))"
  using assms
proof (induction xs)
  case Nil
  then show ?case by (simp add: dataOf_def)
next
  case (Cons e xs)
  from Cons.prems have ks: "KeySize (Header e) = word_of_nat (length (Key e))"
    and vs: "ValueSize (Header e) = word_of_nat (length (Value e))"
    by (auto simp: validRecord_def dest: sym)
  from Cons.prems have "RecordSize e = word_of_nat (length (EncodeKV e))"
    by (simp add: length_EncodeKV ks vs headerSize_def)
  moreover from Cons have "sum_list (map RecordSize xs) = word_of_nat (length (dataOf xs))"
    by simp
  ultimately show ?case
    by (simp add: dataOf_def)
qed

lemma list_all_take: "list_all Q xs \<Longrightarrow> list_all Q (take i xs)"
  by (auto simp: list_all_iff dest: in_set_takeD)

lemma InitSSTableOnDisk_dataFile:
  assumes "InitSSTableOnDisk P w directory es = (Inr t, w')"
  shows "\<forall>f. dataFile t = Some f \<longrightarrow> contents f = dataOf es"
  using assms
  by (auto simp: InitSSTableOnDisk_def InitTableFiles_def os_Create_def writeEntriesToSST_def
                 writeLoop_eq WriteToFile_def dataOf_def Let_def
           split: if_splits prod.splits sum.splits option.splits)

lemma built_offsets_are_boundaries:
  assumes built: "InitSSTableOnDisk P w directory es = (Inr t, w')"
    and v: "list_all validRecord es"
    and rsz: "list_all (\<lambda>e. RecordSize e = headerSize + KeySize (Header e)
                              + ValueSize (Header e)) es"
    and x: "x \<in> set (sparseKeys t)"
  shows "\<exists>j\<le>length es. byteOffset x = word_of_nat (length (dataOf (take j es)))"
proof -
  from InitSSTableOnDisk_Inr [OF built] obtain table1 where
    wr: "writeEntriesToSST P es table1 = Inr t" and fresh: "sparseKeys table1 = []"
    by blast
  have sk: "sparseKeys t =
        map (\<lambda>i. \<lparr>keySize = KeySize (Header (es ! i)), key = Key (es ! i),
                   byteOffset = sum_list (map RecordSize (take i es))\<rparr>)
          (filter (\<lambda>i. i mod SparseIndexSampleSize = 0) [0..<length es])"
    using writeEntriesToSST_Inr(4) [OF wr] fresh by (simp add: writeLoop_eq)
  from x obtain j where j: "j < length es"
    and xj: "byteOffset x = sum_list (map RecordSize (take j es))"
    unfolding sk by auto
  have "sum_list (map RecordSize (take j es)) = word_of_nat (length (dataOf (take j es)))"
    by (rule RecordSize_sum [OF list_all_take [OF v] list_all_take [OF rsz]])
  with j xj show ?thesis
    by (intro exI [of _ j]) simp
qed

lemma Get_returns_on_built_table:
  assumes built: "InitSSTableOnDisk P w directory es = (Inr t, w')"
    and v: "list_all validRecord es"
    and rsz: "list_all (\<lambda>e. RecordSize e = headerSize + KeySize (Header e)
                              + ValueSize (Header e)) es"
    and small: "length (dataOf es) < 2 ^ 32"
  shows "\<exists>res t'. Get P t targetKey = Some (res, t')"
proof -
  have scan: "\<exists>res f'. scanLoop (Seek f (byteOffset (sparseKeys t ! nat i))) targetKey
                          (byteOffset (sparseKeys t ! nat i)) False None = Some (res, f')"
    if f: "dataFile t = Some f" and i: "0 \<le> i" "i < int (length (sparseKeys t))" for f i
  proof -
    let ?x = "sparseKeys t ! nat i"
    from i have "?x \<in> set (sparseKeys t)"
      by (simp add: nat_less_iff)
    from built_offsets_are_boundaries [OF built v rsz this] obtain j where
      j: "j \<le> length es" and off: "byteOffset ?x = word_of_nat (length (dataOf (take j es)))"
      by blast
    have lt: "length (dataOf (take j es)) < 2 ^ 32"
      using dataOf_take_le [of j es] small by simp
    have c0: "contents (Seek f (byteOffset ?x)) = dataOf es"
      using InitSSTableOnDisk_dataFile [OF built] f by (simp add: Seek_def)
    have p0: "pos (Seek f (byteOffset ?x)) = length (dataOf (take j es))"
      using unat_offset [OF lt] by (simp add: Seek_def off)
    have o0: "byteOffset ?x = word_of_nat (pos (Seek f (byteOffset ?x)))"
      unfolding p0 by (rule off)
    from scanLoop_ends_at_boundary [OF v small j c0 p0, of targetKey]
    show ?thesis
      by (simp add: o0 [symmetric])
  qed
  show ?thesis
  proof (cases "Get P t targetKey")
    case (Some y)
    then show ?thesis by (cases y) simp
  next
    case None
    then obtain bf i f where "dataFile t = Some f" "0 \<le> i" "i < int (length (sparseKeys t))"
      and "scanLoop (Seek f (byteOffset (sparseKeys t ! nat i))) targetKey
             (byteOffset (sparseKeys t ! nat i)) False None = None"
      by (auto simp: Get_def Let_def not_less not_le
               split: if_splits option.splits sum.splits)
    with scan show ?thesis by fastforce
  qed
qed

text \<open>
  Without the bound on the length the loop need not end. The data file with the one
  record of \<open>bigRecord\<close> is well-formed and has \<open>2 ^ 32\<close> bytes. For the target b the
  first pass, at offset 0, decodes the record, whose key is smaller than b, and goes
  on at offset \<open>0 + 17 + (2 ^ 32 - 17)\<close>, which is 0 again in 32 bits: every pass
  starts where the first one did.
\<close>

lemma bigRecord_valid: "validRecord bigRecord"
  by (simp add: validRecord_def bigRecord_def)

lemma bigRecord_Key: "Key bigRecord = CHR ''a'' # replicate 4294967278 (CHR ''a'')"
proof -
  have "replicate (Suc 4294967278) (CHR ''a'') = CHR ''a'' # replicate 4294967278 (CHR ''a'')"
    by (rule replicate_Suc)
  then show ?thesis
    by (simp add: bigRecord_def)
qed

lemma bigRecord_below_b: "Key bigRecord \<noteq> ''b''" "\<not> Key bigRecord > ''b''"
  by (simp_all add: bigRecord_Key)

lemma bigData_length: "length (contents bigData) = 2 ^ 32"
  by (simp add: bigData_def length_EncodeKV bigRecord_def)

lemma bigData_pass:
  assumes c: "contents f = EncodeKV bigRecord" and p: "pos f = 0"
  shows "\<exists>f'. scanBody f ''b'' 0 = Continue 0 f'
           \<and> contents f' = EncodeKV bigRecord \<and> pos f' = 0"
proof -
  have c': "contents f = [] @ EncodeKV bigRecord @ []"
    by (simp add: c)
  have p': "pos f = length ([] :: byte list)"
    by (simp add: p)
  have b1: "length ([] :: byte list) + 17 < 2 ^ 32"
    by simp
  have b2: "length (Key bigRecord) + length (Value bigRecord) < 2 ^ 32"
    by (simp add: bigRecord_def)
  from scanRead_record [OF c' p' bigRecord_valid b1 b2] obtain f3 where
    rd: "scanRead f 0
           = Inr (bigRecord\<lparr>RecordSize := headerSize + KeySize (Header bigRecord)
                                             + ValueSize (Header bigRecord)\<rparr>,
                  0 + headerSize, f3)"
    and c3: "contents f3 = contents f"
    by auto
  have wrap: "headerSize + (KeySize (Header bigRecord) + ValueSize (Header bigRecord))
      = (0 :: u32)"
    by (simp add: headerSize_def bigRecord_def)
  show ?thesis
    unfolding scanBody_def rd
    using bigRecord_below_b c3 c
    by (simp add: Let_def wrap Seek_def)
qed

lemma bigData_loops:
  assumes "scanLoop f targetKey currOffset keyFound eofErr = Some y"
  shows "\<not> (contents f = EncodeKV bigRecord \<and> pos f = 0 \<and> targetKey = ''b''
             \<and> currOffset = 0 \<and> keyFound = False \<and> eofErr = None)"
  using assms
proof (induction rule: scanLoop.raw_induct [rotated, consumes 1])
  case (1 scanLoop' f targetKey currOffset keyFound eofErr y)
  show ?case
  proof
    assume inv: "contents f = EncodeKV bigRecord \<and> pos f = 0 \<and> targetKey = ''b''
             \<and> currOffset = 0 \<and> keyFound = False \<and> eofErr = None"
    then obtain f' where
      step: "scanBody f ''b'' 0 = Continue 0 f'"
      and c': "contents f' = EncodeKV bigRecord" and p': "pos f' = 0"
      using bigData_pass by blast
    from "1.hyps" inv step have "scanLoop' f' ''b'' 0 False None = Some y"
      by simp
    from "1.IH" [OF this] c' p' show False
      by simp
  qed
qed

theorem scanLoop_wraps_counterexample:
  "wellFormedData [bigRecord] (contents bigData)
   \<and> length (contents bigData) = 2 ^ 32
   \<and> (0::u32) = word_of_nat (length (dataOf (take 0 [bigRecord])))
   \<and> scanLoop (Seek bigData 0) ''b'' 0 False None = None"
proof -
  have wf: "wellFormedData [bigRecord] (contents bigData)"
    by (simp add: wellFormedData_def bigRecord_valid dataOf_def bigData_def)
  have start: "(0::u32) = word_of_nat (length (dataOf (take 0 [bigRecord])))"
    by (simp add: dataOf_def)
  have "scanLoop (Seek bigData 0) ''b'' 0 False None \<noteq> Some y" for y
    using bigData_loops [of "Seek bigData 0" "''b''" 0 False None y]
    by (auto simp: Seek_def bigData_def)
  then have none: "scanLoop (Seek bigData 0) ''b'' 0 False None = None"
    by (cases "scanLoop (Seek bigData 0) ''b'' 0 False None") auto
  show ?thesis
    by (intro conjI wf bigData_length start none)
qed

end
